theory Spec2Isabelle
  imports Main
begin

section \<open>Data model\<close>

text \<open>
  Instants and durations. Go's \<open>time.Duration\<close> is an int64 count of nanoseconds, and a
  \<open>time.Time\<close> taken with \<open>time.Now()\<close> carries a wall-clock reading together with
  a monotonic reading (nanoseconds since process start). Both are modelled as \<open>int\<close>:
  the monotonic reading starts near zero, so the sums and differences formed here stay far
  inside the int64 range and the saturation branches of \<open>Time.Add\<close>/\<open>Time.Sub\<close> are
  not reached.
\<close>

type_synonym Duration = int

record Time =
  wall :: int
  mono :: "int option"

definition Second :: Duration where
  "Second = 1000000000"

definition Hour :: Duration where
  "Hour = 3600 * Second"

text \<open>The constants of \<open>main.go\<close>, lines 37-41.\<close>

definition tailscaleAuthURL :: string where
  "tailscaleAuthURL = ''https://api.tailscale.com/api/v2/oauth/token''"

definition tailscaleAPIBase :: string where
  "tailscaleAPIBase = ''https://api.tailscale.com/api/v2''"

definition authKeyExpiryDays :: int where
  "authKeyExpiryDays = 14"

text \<open>The struct \<open>TailscaleAuthKey\<close> of \<open>main.go\<close>, lines 43-49.\<close>

record TailscaleAuthKey =
  ID :: string
  Key :: string
  Created :: Time
  Expires :: Time
  Ephemeral :: bool

text \<open>The values a request body is built from (\<open>map[string]interface{}\<close>, \<open>bool\<close>,
  \<open>int\<close>, \<open>[]string\<close>).\<close>

datatype json =
    JBool bool
  | JInt int
  | JStr string
  | JArr "json list"
  | JObj "(string \<times> json) list"

text \<open>An HTTP request as \<open>generateAuthKey\<close> builds it, and a response as it reads it:
  the status code and the outcome of \<open>io.ReadAll(resp.Body)\<close>, which is the bytes read
  together with the read error, if any.\<close>

record request =
  Method :: string
  URL :: string
  Header :: "(string \<times> string) list"
  Body :: string

record response =
  StatusCode :: int
  BodyRead :: "string \<times> string option"

text \<open>The logrus levels, in the library's numbering (Panic is 0, Trace is 6).\<close>

datatype Level = PanicLevel | FatalLevel | ErrorLevel | WarnLevel | InfoLevel | DebugLevel | TraceLevel

fun level_num :: "Level \<Rightarrow> nat" where
  "level_num PanicLevel = 0"
| "level_num FatalLevel = 1"
| "level_num ErrorLevel = 2"
| "level_num WarnLevel = 3"
| "level_num InfoLevel = 4"
| "level_num DebugLevel = 5"
| "level_num TraceLevel = 6"

datatype field_value = FStr string | FInt int | FTime Time

text \<open>A line that reached the log output: either one written by the standard library's
  \<open>log\<close> package (used by \<open>oauth.go\<close>, unconditional), or a logrus entry with its level,
  message and fields (used by \<open>main.go\<close>).\<close>

datatype log_line =
    StdLog string
  | Logrus Level string "(string \<times> field_value) list"

text \<open>What goes over the network: a token exchange at the OAuth token endpoint (token URL,
  client id, client secret), or an API request.\<close>

datatype wire_event =
    TokenRequest string string string
  | ApiRequest request

text \<open>The client that \<open>clientcredentials.Config.Client\<close> returns holds the configuration;
  its token cache is part of the process state.\<close>

record http_client =
  ClientID :: string
  ClientSecret :: string
  TokenURL :: string

text \<open>The errors \<open>generateAuthKey\<close> returns, one constructor per \<open>fmt.Errorf\<close> of the
  source, named after the kinds of the specification:
  line 128 (marshal), line 140 (request construction), line 147 (transport, the
  specification's NetworkError), line 158 (non-200 status, ProvisioningError, with the status
  code and the raw body), line 163 (decoding, DecodeError).\<close>

datatype error =
    MarshalFailed string
  | RequestFailed string
  | NetworkError string
  | ProvisioningError int string
  | DecodeError string

section \<open>The environment\<close>

text \<open>
  Everything outside the program: the readings of the clock (the n-th call of
  \<open>time.Now()\<close> returns the n-th reading), the token endpoint (an error or an access token
  for a client id and secret), the API (a transport error or a response for a request), the
  outcome of \<open>os.Executable()\<close> (an error, if it fails), and the \<open>.env\<close> files beside
  the executable and in the working directory (the error of loading it, or its key-value
  pairs).

  The libraries \<open>net/url\<close>, \<open>encoding/json\<close> and \<open>time\<close> are modelled below on the
  inputs named there. What they do on every other input, and the texts of their errors, is
  left to the environment as well: \<open>url_other\<close> (an error or the URL that the request
  carries, for a URL that does not start with \<open>https://api.tailscale.com/\<close>),
  \<open>url_error_text\<close>, \<open>json_other\<close> (an error or the decoded record, for a body with a
  string that has an escape or a byte outside ASCII), \<open>json_error_text\<close>, and
  \<open>time_other\<close> (the instant, if any, that \<open>time.Parse\<close> with the layout RFC3339 gives
  a string that the fast RFC 3339 parser does not accept).
\<close>

record world =
  wall_clock :: "nat \<Rightarrow> int"
  mono_clock :: "nat \<Rightarrow> int"
  token_endpoint :: "string \<Rightarrow> string \<Rightarrow> string + string"
  api :: "request \<Rightarrow> string + response"
  executable_error :: "string option"
  dotenv_exe :: "string + (string \<times> string) list"
  dotenv :: "string + (string \<times> string) list"
  url_other :: "string \<Rightarrow> string + string"
  url_error_text :: "string \<Rightarrow> string"
  json_other :: "string \<Rightarrow> string + TailscaleAuthKey"
  json_error_text :: "string \<Rightarrow> string"
  time_other :: "string \<Rightarrow> Time option"

text \<open>The process state: how often the clock was read, the cached OAuth token, the network
  traffic so far, the log output so far, the logrus level, and the environment variables.\<close>

record state =
  ticks :: nat
  token :: "string option"
  wire :: "wire_event list"
  logs :: "log_line list"
  logLevel :: Level
  environ :: "(string \<times> string) list"

section \<open>Library operations\<close>

definition time_Now :: "world \<Rightarrow> state \<Rightarrow> Time \<times> state" where
  "time_Now w s =
     (\<lparr>wall = wall_clock w (ticks s), mono = Some (mono_clock w (ticks s))\<rparr>,
      s\<lparr>ticks := Suc (ticks s)\<rparr>)"

definition time_Add :: "Time \<Rightarrow> Duration \<Rightarrow> Time" where
  "time_Add t d = \<lparr>wall = wall t + d, mono = map_option (\<lambda>m. m + d) (mono t)\<rparr>"

text \<open>\<open>Time.Sub\<close> uses the monotonic readings when both instants have one.\<close>

definition time_Sub :: "Time \<Rightarrow> Time \<Rightarrow> Duration" where
  "time_Sub t u =
     (case (mono t, mono u) of
        (Some a, Some b) \<Rightarrow> a - b
      | _ \<Rightarrow> wall t - wall u)"

text \<open>
  \<open>int(d.Seconds())\<close>: \<open>Seconds\<close> returns the float64
  \<open>float64(d / Second) + float64(d % Second) / 1e9\<close> and the conversion to \<open>int\<close>
  truncates toward zero. For a duration of less than \<open>2^21\<close> seconds in absolute value
  (24 days) the float64 sum is less than half a nanosecond away from the exact quotient, so
  the truncation is the integer quotient rounded toward zero. That range holds every duration
  between two instants at most 14 days apart, in either order; beyond it the model keeps the
  quotient rounded toward zero.
\<close>

definition seconds_int :: "Duration \<Rightarrow> int" where
  "seconds_int d = (if d < 0 then - ((- d) div Second) else d div Second)"

text \<open>A logrus entry is written only when the logger's level enables the entry's level.\<close>

definition logrus_log :: "Level \<Rightarrow> (string \<times> field_value) list \<Rightarrow> string \<Rightarrow> state \<Rightarrow> state" where
  "logrus_log l fs msg s =
     (if level_num l \<le> level_num (logLevel s)
      then s\<lparr>logs := logs s @ [Logrus l msg fs]\<rparr>
      else s)"

definition Debug :: "(string \<times> field_value) list \<Rightarrow> string \<Rightarrow> state \<Rightarrow> state" where
  "Debug fs msg s = logrus_log DebugLevel fs msg s"

text \<open>
  \<open>json.Marshal\<close> on the values above: compact output, the keys of a map in sorted
  (bytewise) order, integers in decimal. The strings of the request are fixed ASCII words
  with no character that the encoder escapes, so a string is rendered between quotes as it
  is. On these values the encoder has no error case; the result keeps the error side of the
  Go signature.
\<close>

definition dq :: char where
  "dq = CHR 0x22"

definition digit_char :: "nat \<Rightarrow> char" where
  "digit_char n = ''0123456789'' ! n"

fun digits :: "nat \<Rightarrow> string" where
  "digits n = (if n < 10 then [digit_char n] else digits (n div 10) @ [digit_char (n mod 10)])"

declare digits.simps [simp del]

definition show_int :: "int \<Rightarrow> string" where
  "show_int i = (if i < 0 then CHR ''-'' # digits (nat (- i)) else digits (nat i))"

fun bytes_less :: "string \<Rightarrow> string \<Rightarrow> bool" where
  "bytes_less [] [] = False"
| "bytes_less [] (y # ys) = True"
| "bytes_less (x # xs) [] = False"
| "bytes_less (x # xs) (y # ys) =
     ((of_char x :: nat) < of_char y \<or> (x = y \<and> bytes_less xs ys))"

fun insert_field :: "string \<times> string \<Rightarrow> (string \<times> string) list \<Rightarrow> (string \<times> string) list" where
  "insert_field p [] = [p]"
| "insert_field p (q # qs) =
     (if bytes_less (fst q) (fst p) then q # insert_field p qs else p # q # qs)"

definition sort_fields :: "(string \<times> string) list \<Rightarrow> (string \<times> string) list" where
  "sort_fields ps = foldr insert_field ps []"

fun join_comma :: "string list \<Rightarrow> string" where
  "join_comma [] = []"
| "join_comma [x] = x"
| "join_comma (x # y # ys) = x @ '','' @ join_comma (y # ys)"

definition json_string :: "string \<Rightarrow> string" where
  "json_string s = [dq] @ s @ [dq]"

fun encode :: "json \<Rightarrow> string" where
  "encode (JBool b) = (if b then ''true'' else ''false'')"
| "encode (JInt i) = show_int i"
| "encode (JStr s) = json_string s"
| "encode (JArr xs) = ''['' @ join_comma (map encode xs) @ '']''"
| "encode (JObj kvs) =
     ''{'' @ join_comma (map (\<lambda>(k, r). json_string k @ '':'' @ r)
                          (sort_fields (map (\<lambda>(k, v). (k, encode v)) kvs))) @ ''}''"

definition json_Marshal :: "json \<Rightarrow> string + string" where
  "json_Marshal v = Inr (encode v)"

subsection \<open>The packages \<open>net/url\<close> and \<open>net/http\<close>\<close>

text \<open>
  \<open>url.Parse\<close> and \<open>URL.String\<close>, on bytes. \<open>shouldEscape\<close> in the modes of a path
  and of a fragment: letters, digits and \<open>- _ . ~\<close> are never escaped; of the reserved
  characters \<open>$ & + , / : ; = ? @\<close> a path escapes only \<open>?\<close> and a fragment none, and a
  fragment also keeps \<open>! ( ) *\<close>; every other byte is escaped.
\<close>

definition is_alnum :: "char \<Rightarrow> bool" where
  "is_alnum c =
     (let n = (of_char c :: nat)
      in (97 \<le> n \<and> n \<le> 122) \<or> (65 \<le> n \<and> n \<le> 90) \<or> (48 \<le> n \<and> n \<le> 57))"

definition shouldEscape_path :: "char \<Rightarrow> bool" where
  "shouldEscape_path c = (\<not> is_alnum c \<and> c \<notin> set ''-_.~$&+,/:;=@'')"

definition shouldEscape_fragment :: "char \<Rightarrow> bool" where
  "shouldEscape_fragment c = (\<not> is_alnum c \<and> c \<notin> set ''-_.~$&+,/:;=?@!()*'')"

definition ishex :: "char \<Rightarrow> bool" where
  "ishex c =
     (let n = (of_char c :: nat)
      in (48 \<le> n \<and> n \<le> 57) \<or> (97 \<le> n \<and> n \<le> 102) \<or> (65 \<le> n \<and> n \<le> 70))"

definition unhex :: "char \<Rightarrow> nat" where
  "unhex c =
     (let n = (of_char c :: nat)
      in if 48 \<le> n \<and> n \<le> 57 then n - 48
         else if 97 \<le> n \<and> n \<le> 102 then n - 97 + 10
         else if 65 \<le> n \<and> n \<le> 70 then n - 65 + 10
         else 0)"

text \<open>\<open>unescape\<close> fails on a percent sign that two hexadecimal digits do not follow.\<close>

fun unescape :: "string \<Rightarrow> string option" where
  "unescape [] = Some []"
| "unescape (c # cs) =
     (if c = CHR ''%'' then
        (case cs of
           h1 # h2 # rest \<Rightarrow>
             if ishex h1 \<and> ishex h2
             then map_option ((#) (char_of (16 * unhex h1 + unhex h2))) (unescape rest)
             else None
         | _ \<Rightarrow> None)
      else map_option ((#) c) (unescape cs))"

definition upperhex :: "nat \<Rightarrow> char" where
  "upperhex n = ''0123456789ABCDEF'' ! n"

definition escape :: "(char \<Rightarrow> bool) \<Rightarrow> string \<Rightarrow> string" where
  "escape esc s =
     concat (map (\<lambda>c. if esc c
                       then [CHR ''%'', upperhex (of_char c div 16), upperhex (of_char c mod 16)]
                       else [c]) s)"

definition validEncoded :: "(char \<Rightarrow> bool) \<Rightarrow> string \<Rightarrow> bool" where
  "validEncoded esc s =
     list_all (\<lambda>c. c \<in> set ''!$&()*+,;=:@[]%'' \<or> c = CHR 0x27 \<or> \<not> esc c) s"

text \<open>
  \<open>EscapedPath\<close> and \<open>EscapedFragment\<close>, from the text as it was given and its unescaped
  form: the text given is kept when it is the default encoding of the unescaped form or a
  valid encoding of it, and the default encoding is used otherwise.
\<close>

definition escaped_form :: "(char \<Rightarrow> bool) \<Rightarrow> string \<Rightarrow> string \<Rightarrow> string" where
  "escaped_form esc raw decoded =
     (if escape esc decoded = raw \<or> validEncoded esc raw then raw else escape esc decoded)"

definition is_ctl :: "char \<Rightarrow> bool" where
  "is_ctl c = ((of_char c :: nat) < 32 \<or> c = CHR 0x7F)"

text \<open>\<open>strings.Cut\<close> at a byte: the text before its first occurrence, and the text after
  it when it occurs.\<close>

fun cut :: "char \<Rightarrow> string \<Rightarrow> string \<times> string option" where
  "cut sep [] = ([], None)"
| "cut sep (c # cs) =
     (if c = sep then ([], Some cs)
      else (case cut sep cs of (a, b) \<Rightarrow> (c # a, b)))"

text \<open>
  \<open>url.Parse\<close> followed by \<open>URL.String\<close> on \<open>https://api.tailscale.com\<close> followed by
  \<open>rest\<close>, where \<open>rest\<close> begins with a slash: the fragment is cut off at the first \<open>#\<close>, a
  control character before it is an error, the query is cut off at the first \<open>?\<close> and kept
  as it is, the path and the fragment are unescaped (an error when that fails) and written
  back in their escaped forms. The result is \<open>None\<close> when \<open>url.Parse\<close> fails.
\<close>

definition api_url :: "string \<Rightarrow> string option" where
  "api_url rest =
     (case cut CHR ''#'' rest of (u, frag) \<Rightarrow>
        if list_ex is_ctl u then None
        else (case cut CHR ''?'' u of (p, query) \<Rightarrow>
          (case unescape p of
             None \<Rightarrow> None
           | Some path \<Rightarrow>
               (let head = ''https://api.tailscale.com'' @ escaped_form shouldEscape_path p path
                           @ (case query of None \<Rightarrow> [] | Some q \<Rightarrow> CHR ''?'' # q)
                in case frag of
                     None \<Rightarrow> Some head
                   | Some f \<Rightarrow>
                       (case unescape f of
                          None \<Rightarrow> None
                        | Some fd \<Rightarrow>
                            Some (if fd = [] then head
                                  else head @ CHR ''#'' # escaped_form shouldEscape_fragment f fd))))))"

fun strip_prefix :: "string \<Rightarrow> string \<Rightarrow> string option" where
  "strip_prefix [] cs = Some cs"
| "strip_prefix (p # ps) [] = None"
| "strip_prefix (p # ps) (c # cs) = (if c = p then strip_prefix ps cs else None)"

text \<open>The URL that a request made for the string \<open>url\<close> carries, or the error of
  \<open>url.Parse\<close>.\<close>

definition url_Parse :: "world \<Rightarrow> string \<Rightarrow> string + string" where
  "url_Parse w url =
     (case strip_prefix ''https://api.tailscale.com/'' url of
        Some r \<Rightarrow>
          (case api_url (CHR ''/'' # r) of
             None \<Rightarrow> Inl (url_error_text w url)
           | Some u \<Rightarrow> Inr u)
      | None \<Rightarrow> url_other w url)"

text \<open>\<open>http.NewRequestWithContext\<close> fails when the URL does not parse, and makes a request
  that carries the parsed URL; \<open>Header.Set\<close> replaces the values of a key.\<close>

definition NewRequestWithContext :: "world \<Rightarrow> string \<Rightarrow> string \<Rightarrow> string \<Rightarrow> string + request" where
  "NewRequestWithContext w method url body =
     (case url_Parse w url of
        Inl e \<Rightarrow> Inl e
      | Inr u \<Rightarrow> Inr \<lparr>Method = method, URL = u, Header = [], Body = body\<rparr>)"

definition Header_Set :: "string \<Rightarrow> string \<Rightarrow> request \<Rightarrow> request" where
  "Header_Set k v r = r\<lparr>Header := filter (\<lambda>p. fst p \<noteq> k) (Header r) @ [(k, v)]\<rparr>"

text \<open>
  Modelled from the spec: \<open>client.Do\<close> on the client that
  \<open>clientcredentials.Config.Client\<close> returns (package \<open>golang.org/x/oauth2\<close>, not among
  the sources). Section 4.1 of the specification: the client attaches a valid bearer token to
  every outgoing request, and token acquisition is lazy, so a failure of the credentials or of
  the token endpoint surfaces when the client is used. The transport obtains a token from the
  token endpoint when none is cached (failing with the endpoint's error), attaches it to a
  copy of the request and sends that. Token expiry within the run is not modelled.
\<close>

definition client_Do :: "world \<Rightarrow> http_client \<Rightarrow> request \<Rightarrow> state \<Rightarrow> (string + response) \<times> state" where
  "client_Do w c req s =
     (let send = (\<lambda>tok s'.
            let req2 = Header_Set ''Authorization'' (''Bearer '' @ tok) req
            in (api w req2, s'\<lparr>wire := wire s' @ [ApiRequest req2]\<rparr>))
      in case token s of
           Some tok \<Rightarrow> send tok s
         | None \<Rightarrow>
             (let s1 = s\<lparr>wire := wire s @ [TokenRequest (TokenURL c) (ClientID c) (ClientSecret c)]\<rparr>
              in case token_endpoint w (ClientID c) (ClientSecret c) of
                   Inl e \<Rightarrow> (Inl e, s1)
                 | Inr tok \<Rightarrow> send tok (s1\<lparr>token := Some tok\<rparr>)))"

subsection \<open>The package \<open>time\<close>: parsing an instant\<close>

text \<open>The value of a decimal numeral.\<close>

definition digit_val :: "char \<Rightarrow> nat" where
  "digit_val c = of_char c - 48"

definition digits_val :: "string \<Rightarrow> nat" where
  "digits_val cs = foldl (\<lambda>a c. 10 * a + digit_val c) 0 cs"

definition is_digit :: "char \<Rightarrow> bool" where
  "is_digit c = (let n = (of_char c :: nat) in 48 \<le> n \<and> n \<le> 57)"

fun scan_digits :: "string \<Rightarrow> string \<times> string" where
  "scan_digits [] = ([], [])"
| "scan_digits (c # cs) =
     (if is_digit c then (case scan_digits cs of (ds, r) \<Rightarrow> (c # ds, r)) else ([], c # cs))"

text \<open>
  \<open>parseRFC3339\<close>, the parser that \<open>Time.UnmarshalJSON\<close> tries first: the fixed layout
  \<open>2006-01-02T15:04:05\<close> with every field in its range, an optional fraction of a second
  (a point and digits, of which nine count), and the zone \<open>Z\<close> or an offset \<open>+hh:mm\<close> or
  \<open>-hh:mm\<close>. An instant is kept as nanoseconds since the Unix epoch; the days are counted in
  the proleptic Gregorian calendar, as \<open>time.Date\<close> does.
\<close>

definition parseUint :: "string \<Rightarrow> int \<Rightarrow> int \<Rightarrow> int option" where
  "parseUint s lo hi =
     (if list_all is_digit s
      then (let x = int (digits_val s) in if lo \<le> x \<and> x \<le> hi then Some x else None)
      else None)"

definition isLeap :: "int \<Rightarrow> bool" where
  "isLeap y = (y mod 4 = 0 \<and> (y mod 100 \<noteq> 0 \<or> y mod 400 = 0))"

definition daysIn :: "int \<Rightarrow> int \<Rightarrow> int" where
  "daysIn m y =
     (if m = 2 then (if isLeap y then 29 else 28)
      else if m = 4 \<or> m = 6 \<or> m = 9 \<or> m = 11 then 30
      else 31)"

definition unix_days :: "int \<Rightarrow> int \<Rightarrow> int \<Rightarrow> int" where
  "unix_days y m d =
     (let y' = (if m \<le> 2 then y - 1 else y);
          era = y' div 400;
          yoe = y' - era * 400;
          doy = (153 * (if m > 2 then m - 3 else m + 9) + 2) div 5 + d - 1;
          doe = yoe * 365 + yoe div 4 - yoe div 100 + doy
      in era * 146097 + doe - 719468)"

definition scan_nanos :: "string \<Rightarrow> int \<times> string" where
  "scan_nanos s =
     (case s of
        c # d # r \<Rightarrow>
          if c = CHR ''.'' \<and> is_digit d
          then (case scan_digits (d # r) of
                  (ds, rest) \<Rightarrow>
                    (int (digits_val (take 9 ds)) * 10 ^ (9 - length (take 9 ds)), rest))
          else (0, s)
      | _ \<Rightarrow> (0, s))"

definition scan_zone :: "string \<Rightarrow> int option" where
  "scan_zone s =
     (if s = ''Z'' then Some 0
      else if length s \<noteq> 6 then None
      else (case (parseUint (take 2 (drop 1 s)) 0 23, parseUint (take 2 (drop 4 s)) 0 59) of
              (Some hr, Some mm) \<Rightarrow>
                if (s ! 0 = CHR ''-'' \<or> s ! 0 = CHR ''+'') \<and> s ! 3 = CHR '':''
                then Some ((if s ! 0 = CHR ''-'' then - 1 else 1) * ((hr * 60 + mm) * 60))
                else None
            | _ \<Rightarrow> None))"

definition parseRFC3339 :: "string \<Rightarrow> Time option" where
  "parseRFC3339 s =
     (if length s < 19 then None
      else (case (parseUint (take 4 s) 0 9999, parseUint (take 2 (drop 5 s)) 1 12) of
              (Some year, Some month) \<Rightarrow>
                (case (parseUint (take 2 (drop 8 s)) 1 (daysIn month year),
                       parseUint (take 2 (drop 11 s)) 0 23,
                       parseUint (take 2 (drop 14 s)) 0 59,
                       parseUint (take 2 (drop 17 s)) 0 59) of
                   (Some day, Some hour, Some minute, Some sec) \<Rightarrow>
                     if s ! 4 = CHR ''-'' \<and> s ! 7 = CHR ''-'' \<and> s ! 10 = CHR ''T''
                        \<and> s ! 13 = CHR '':'' \<and> s ! 16 = CHR '':''
                     then (case scan_nanos (drop 19 s) of
                             (nsec, r) \<Rightarrow>
                               (case scan_zone r of
                                  None \<Rightarrow> None
                                | Some offset \<Rightarrow>
                                    Some \<lparr>wall = (unix_days year month day * 86400 + hour * 3600
                                                   + minute * 60 + sec - offset) * Second + nsec,
                                          mono = None\<rparr>))
                     else None
                 | _ \<Rightarrow> None)
            | _ \<Rightarrow> None))"

text \<open>\<open>parseStrictRFC3339\<close>: when the fast parser does not accept the string, the result is
  that of \<open>time.Parse\<close> with the layout RFC3339, which is left to the environment.\<close>

definition time_Parse :: "world \<Rightarrow> string \<Rightarrow> Time option" where
  "time_Parse w s = (case parseRFC3339 s of Some t \<Rightarrow> Some t | None \<Rightarrow> time_other w s)"

text \<open>The zero \<open>time.Time\<close>, January 1 of year 1, 00:00:00 UTC.\<close>

definition zero_Time :: Time where
  "zero_Time = \<lparr>wall = - 62135596800 * Second, mono = None\<rparr>"

subsection \<open>The package \<open>encoding/json\<close>: decoding\<close>

text \<open>
  A JSON text as the scanner of \<open>encoding/json\<close> reads it. A number is kept as its text. A
  string is kept as its content; a string with an escape or with a byte outside ASCII is not
  modelled, and a text that has one is \<open>Unsupported\<close>.
\<close>

datatype jvalue =
    VNull
  | VBool bool
  | VNumber string
  | VString string
  | VArray "jvalue list"
  | VObject "(string \<times> jvalue) list"

text \<open>The outcome of scanning: a value and the rest of the text, a syntax error, a text
  outside the model, or the end of the recursion budget, which does not occur with the budget
  that \<open>scan_json\<close> sets (lemma \<open>scan_json_fuel\<close> below).\<close>

datatype 'a scan = Ok 'a string | Bad | Unsupported | Fuel

definition is_space :: "char \<Rightarrow> bool" where
  "is_space c = (c = CHR '' '' \<or> c = CHR 0x09 \<or> c = CHR 0x0A \<or> c = CHR 0x0D)"

fun skip_space :: "string \<Rightarrow> string" where
  "skip_space [] = []"
| "skip_space (c # cs) = (if is_space c then skip_space cs else c # cs)"

text \<open>The content of a string, after its opening quote: a control character is a syntax
  error, the end of the text too.\<close>

fun scan_string :: "string \<Rightarrow> string \<Rightarrow> string scan" where
  "scan_string acc [] = Bad"
| "scan_string acc (c # cs) =
     (if c = CHR 0x22 then Ok (rev acc) cs
      else if (of_char c :: nat) < 32 then Bad
      else if c = CHR 0x5C \<or> 128 \<le> (of_char c :: nat) then Unsupported
      else scan_string (c # acc) cs)"

fun scan_literal :: "string \<Rightarrow> string \<Rightarrow> string option" where
  "scan_literal [] cs = Some cs"
| "scan_literal (l # ls) [] = None"
| "scan_literal (l # ls) (c # cs) = (if c = l then scan_literal ls cs else None)"

definition scan_exponent :: "string \<Rightarrow> (string \<times> string) option" where
  "scan_exponent cs =
     (case cs of
        [] \<Rightarrow> Some ([], [])
      | c # r \<Rightarrow>
          if c = CHR ''e'' \<or> c = CHR ''E'' then
            (let (sign, r1) = (case r of
                                 [] \<Rightarrow> ([], [])
                               | x # r' \<Rightarrow> if x = CHR ''+'' \<or> x = CHR ''-'' then ([x], r')
                                           else ([], r))
             in case scan_digits r1 of
                  ([], _) \<Rightarrow> None
                | (ds, r2) \<Rightarrow> Some (c # sign @ ds, r2))
          else Some ([], cs))"

definition scan_fraction :: "string \<Rightarrow> (string \<times> string) option" where
  "scan_fraction cs =
     (case cs of
        [] \<Rightarrow> Some ([], [])
      | c # r \<Rightarrow>
          if c = CHR ''.'' then
            (case scan_digits r of
               ([], _) \<Rightarrow> None
             | (ds, r1) \<Rightarrow> Some (c # ds, r1))
          else Some ([], cs))"

text \<open>A number: an optional minus sign, a zero or a numeral that does not begin with zero,
  an optional fraction, an optional exponent.\<close>

definition scan_number :: "string \<Rightarrow> string scan" where
  "scan_number cs =
     (let (sign, r0) = (case cs of
                          [] \<Rightarrow> ([], [])
                        | c # r \<Rightarrow> if c = CHR ''-'' then ([c], r) else ([], cs));
          whole = (case r0 of
                     [] \<Rightarrow> None
                   | c # r \<Rightarrow>
                       if c = CHR ''0'' then Some ([c], r)
                       else if is_digit c then Some (scan_digits r0)
                       else None)
      in case whole of
           None \<Rightarrow> Bad
         | Some (ds, r1) \<Rightarrow>
             (case scan_fraction r1 of
                None \<Rightarrow> Bad
              | Some (fr, r2) \<Rightarrow>
                  (case scan_exponent r2 of
                     None \<Rightarrow> Bad
                   | Some (ex, r3) \<Rightarrow> Ok (sign @ ds @ fr @ ex) r3)))"

definition maxNestingDepth :: nat where
  "maxNestingDepth = 10000"

text \<open>
  A value, the members of an object after its first non-space byte, and the elements of an
  array. The first argument bounds the recursion, the second counts the objects and arrays
  that are open: opening one more than \<open>maxNestingDepth\<close> is an error.
\<close>

fun scan_value :: "nat \<Rightarrow> nat \<Rightarrow> string \<Rightarrow> jvalue scan"
  and scan_members :: "nat \<Rightarrow> nat \<Rightarrow> (string \<times> jvalue) list \<Rightarrow> string \<Rightarrow> jvalue scan"
  and scan_elements :: "nat \<Rightarrow> nat \<Rightarrow> jvalue list \<Rightarrow> string \<Rightarrow> jvalue scan" where
  "scan_value 0 d cs = Fuel"
| "scan_value (Suc n) d cs =
     (case skip_space cs of
        [] \<Rightarrow> Bad
      | c # r \<Rightarrow>
          if c = CHR ''{'' then
            (if maxNestingDepth \<le> d then Bad
             else (case skip_space r of
                     [] \<Rightarrow> Bad
                   | x # r' \<Rightarrow> if x = CHR ''}'' then Ok (VObject []) r'
                               else scan_members n (Suc d) [] (x # r')))
          else if c = CHR ''['' then
            (if maxNestingDepth \<le> d then Bad
             else (case skip_space r of
                     [] \<Rightarrow> Bad
                   | x # r' \<Rightarrow> if x = CHR '']'' then Ok (VArray []) r'
                               else scan_elements n (Suc d) [] (x # r')))
          else if c = CHR 0x22 then
            (case scan_string [] r of
               Ok s r' \<Rightarrow> Ok (VString s) r'
             | Bad \<Rightarrow> Bad | Unsupported \<Rightarrow> Unsupported | Fuel \<Rightarrow> Fuel)
          else if c = CHR ''t'' then
            (case scan_literal ''rue'' r of Some r' \<Rightarrow> Ok (VBool True) r' | None \<Rightarrow> Bad)
          else if c = CHR ''f'' then
            (case scan_literal ''alse'' r of Some r' \<Rightarrow> Ok (VBool False) r' | None \<Rightarrow> Bad)
          else if c = CHR ''n'' then
            (case scan_literal ''ull'' r of Some r' \<Rightarrow> Ok VNull r' | None \<Rightarrow> Bad)
          else if c = CHR ''-'' \<or> is_digit c then
            (case scan_number (c # r) of
               Ok s r' \<Rightarrow> Ok (VNumber s) r'
             | Bad \<Rightarrow> Bad | Unsupported \<Rightarrow> Unsupported | Fuel \<Rightarrow> Fuel)
          else Bad)"
| "scan_members 0 d acc cs = Fuel"
| "scan_members (Suc n) d acc cs =
     (case cs of
        [] \<Rightarrow> Bad
      | c # r \<Rightarrow>
          if c \<noteq> CHR 0x22 then Bad
          else (case scan_string [] r of
                  Bad \<Rightarrow> Bad | Unsupported \<Rightarrow> Unsupported | Fuel \<Rightarrow> Fuel
                | Ok k r1 \<Rightarrow>
                    (case skip_space r1 of
                       [] \<Rightarrow> Bad
                     | x # r2 \<Rightarrow>
                         if x \<noteq> CHR '':'' then Bad
                         else (case scan_value n d r2 of
                                 Bad \<Rightarrow> Bad | Unsupported \<Rightarrow> Unsupported | Fuel \<Rightarrow> Fuel
                               | Ok v r3 \<Rightarrow>
                                   (case skip_space r3 of
                                      [] \<Rightarrow> Bad
                                    | y # r4 \<Rightarrow>
                                        if y = CHR ''}'' then Ok (VObject (acc @ [(k, v)])) r4
                                        else if y = CHR '','' then
                                          scan_members n d (acc @ [(k, v)]) (skip_space r4)
                                        else Bad)))))"
| "scan_elements 0 d acc cs = Fuel"
| "scan_elements (Suc n) d acc cs =
     (case scan_value n d cs of
        Bad \<Rightarrow> Bad | Unsupported \<Rightarrow> Unsupported | Fuel \<Rightarrow> Fuel
      | Ok v r \<Rightarrow>
          (case skip_space r of
             [] \<Rightarrow> Bad
           | y # r1 \<Rightarrow>
               if y = CHR '']'' then Ok (VArray (acc @ [v])) r1
               else if y = CHR '','' then scan_elements n d (acc @ [v]) r1
               else Bad))"

text \<open>A whole text: one value, with nothing but space after it.\<close>

definition scan_json :: "string \<Rightarrow> jvalue scan" where
  "scan_json data =
     (case scan_value (2 * length data + 1) 0 data of
        Ok v r \<Rightarrow> (if skip_space r = [] then Ok v [] else Bad)
      | Bad \<Rightarrow> Bad | Unsupported \<Rightarrow> Unsupported | Fuel \<Rightarrow> Fuel)"

text \<open>
  Decoding an object into the struct \<open>TailscaleAuthKey\<close>, by the tags of \<open>main.go\<close>, lines
  43-49. A member is matched to the field whose tag equals its name when letter case is
  ignored (\<open>foldName\<close> maps ASCII letters to upper case); a member that matches no field is
  skipped. \<open>null\<close> leaves a field as it is. The string fields take a string, the boolean
  field takes \<open>true\<close> or \<open>false\<close>, the time fields take a string that parses as an
  instant; any other value makes the decoding fail.
\<close>

definition upper_byte :: "char \<Rightarrow> char" where
  "upper_byte c =
     (let n = (of_char c :: nat) in if 97 \<le> n \<and> n \<le> 122 then char_of (n - 32) else c)"

definition foldName :: "string \<Rightarrow> string" where
  "foldName s = map upper_byte s"

definition store_string :: "(string \<Rightarrow> TailscaleAuthKey) \<Rightarrow> TailscaleAuthKey \<Rightarrow> jvalue \<Rightarrow> TailscaleAuthKey option" where
  "store_string upd r v =
     (case v of VNull \<Rightarrow> Some r | VString s \<Rightarrow> Some (upd s) | _ \<Rightarrow> None)"

definition store_bool :: "(bool \<Rightarrow> TailscaleAuthKey) \<Rightarrow> TailscaleAuthKey \<Rightarrow> jvalue \<Rightarrow> TailscaleAuthKey option" where
  "store_bool upd r v =
     (case v of VNull \<Rightarrow> Some r | VBool b \<Rightarrow> Some (upd b) | _ \<Rightarrow> None)"

definition store_time :: "world \<Rightarrow> (Time \<Rightarrow> TailscaleAuthKey) \<Rightarrow> TailscaleAuthKey \<Rightarrow> jvalue \<Rightarrow> TailscaleAuthKey option" where
  "store_time w upd r v =
     (case v of
        VNull \<Rightarrow> Some r
      | VString s \<Rightarrow> map_option upd (time_Parse w s)
      | _ \<Rightarrow> None)"

definition store :: "world \<Rightarrow> TailscaleAuthKey \<Rightarrow> string \<times> jvalue \<Rightarrow> TailscaleAuthKey option" where
  "store w r m =
     (let f = foldName (fst m); v = snd m
      in if f = ''ID'' then store_string (\<lambda>s. r\<lparr>ID := s\<rparr>) r v
         else if f = ''KEY'' then store_string (\<lambda>s. r\<lparr>Key := s\<rparr>) r v
         else if f = ''CREATED'' then store_time w (\<lambda>t. r\<lparr>Created := t\<rparr>) r v
         else if f = ''EXPIRES'' then store_time w (\<lambda>t. r\<lparr>Expires := t\<rparr>) r v
         else if f = ''EPHEMERAL'' then store_bool (\<lambda>b. r\<lparr>Ephemeral := b\<rparr>) r v
         else Some r)"

fun decode_members :: "world \<Rightarrow> TailscaleAuthKey \<Rightarrow> (string \<times> jvalue) list \<Rightarrow> TailscaleAuthKey option" where
  "decode_members w r [] = Some r"
| "decode_members w r (m # ms) =
     (case store w r m of None \<Rightarrow> None | Some r' \<Rightarrow> decode_members w r' ms)"

text \<open>The variable \<open>authKey\<close> of line 161 starts as the zero value of the struct. A text that
  is \<open>null\<close> leaves it so; a text that is neither an object nor \<open>null\<close> does not decode.\<close>

definition zero_key :: TailscaleAuthKey where
  "zero_key = \<lparr>ID = [], Key = [], Created = zero_Time, Expires = zero_Time, Ephemeral = False\<rparr>"

definition decode_value :: "world \<Rightarrow> jvalue \<Rightarrow> TailscaleAuthKey option" where
  "decode_value w v =
     (case v of
        VObject ms \<Rightarrow> decode_members w zero_key ms
      | VNull \<Rightarrow> Some zero_key
      | _ \<Rightarrow> None)"

text \<open>\<open>json.Unmarshal(bodyBytes, &authKey)\<close>: the text is checked as a whole first, then
  decoded. The result is the error or the record.\<close>

definition json_Unmarshal :: "world \<Rightarrow> string \<Rightarrow> string + TailscaleAuthKey" where
  "json_Unmarshal w data =
     (case scan_json data of
        Ok v r \<Rightarrow>
          (case decode_value w v of
             Some k \<Rightarrow> Inr k
           | None \<Rightarrow> Inl (json_error_text w data))
      | Bad \<Rightarrow> Inl (json_error_text w data)
      | Unsupported \<Rightarrow> json_other w data
      | Fuel \<Rightarrow> json_other w data)"

section \<open>The auth-key provisioner\<close>

text \<open>The request body of \<open>generateAuthKey\<close>, lines 112-124, from the instant \<open>expiry\<close>
  and the instant \<open>now\<close> read at line 123.\<close>

definition reqBody :: "Time \<Rightarrow> Time \<Rightarrow> json" where
  "reqBody expiry now =
     JObj [(''capabilities'',
              JObj [(''devices'',
                JObj [(''create'',
                  JObj [(''reusable'', JBool False),
                        (''ephemeral'', JBool True),
                        (''preauthorized'', JBool True),
                        (''tags'', JArr [JStr ''tag:server''])])])]),
           (''expirySeconds'', JInt (seconds_int (time_Sub expiry now)))]"

text \<open>The message of an error, as \<open>fmt.Errorf\<close> formats it.\<close>

fun Error :: "error \<Rightarrow> string" where
  "Error (MarshalFailed e) = ''failed to marshal auth key request: '' @ e"
| "Error (RequestFailed e) = ''failed to create auth key request: '' @ e"
| "Error (NetworkError e) = ''failed to send auth key request: '' @ e"
| "Error (ProvisioningError code body) =
     ''failed to generate auth key: HTTP '' @ show_int code @ '' - '' @ body"
| "Error (DecodeError e) = ''failed to decode auth key response: '' @ e"

text \<open>\<open>generateAuthKey\<close>, \<open>main.go\<close> lines 106-173. The result is the error or the
  record, with the state after the call.\<close>

definition generateAuthKey ::
  "world \<Rightarrow> http_client \<Rightarrow> string \<Rightarrow> state \<Rightarrow> (error + TailscaleAuthKey) \<times> state" where
  "generateAuthKey w client tailnet s0 =
     (let endpoint = tailscaleAPIBase @ ''/tailnet/'' @ tailnet @ ''/keys'';
          s1 = Debug [(''endpoint'', FStr endpoint)] ''Generating new auth key'' s0;
          (now1, s2) = time_Now w s1;
          expiry = time_Add now1 (authKeyExpiryDays * 24 * Hour);
          (now2, s3) = time_Now w s2
      in case json_Marshal (reqBody expiry now2) of
           Inl e \<Rightarrow> (Inl (MarshalFailed e), s3)
         | Inr jsonBody \<Rightarrow>
             (let s4 = Debug [(''endpoint'', FStr endpoint), (''body'', FStr jsonBody)]
                         ''Sending auth key request'' s3
              in case NewRequestWithContext w ''POST'' endpoint jsonBody of
                   Inl e \<Rightarrow> (Inl (RequestFailed e), s4)
                 | Inr req0 \<Rightarrow>
                     (let req = Header_Set ''Content-Type'' ''application/json'' req0;
                          (r, s5) = client_Do w client req s4
                      in case r of
                           Inl e \<Rightarrow> (Inl (NetworkError e), s5)
                         | Inr resp \<Rightarrow>
                             (let bodyBytes = fst (BodyRead resp)
                              in if StatusCode resp \<noteq> 200
                                 then (Inl (ProvisioningError (StatusCode resp) bodyBytes),
                                       Debug [(''status_code'', FInt (StatusCode resp)),
                                              (''endpoint'', FStr endpoint),
                                              (''response'', FStr bodyBytes)]
                                         ''Auth key request failed'' s5)
                                 else case json_Unmarshal w bodyBytes of
                                        Inl e \<Rightarrow> (Inl (DecodeError e), s5)
                                      | Inr authKey \<Rightarrow>
                                          (Inr authKey,
                                           Debug [(''key_id'', FStr (ID authKey)),
                                                  (''expires'', FTime (Expires authKey)),
                                                  (''endpoint'', FStr endpoint),
                                                  (''response'', FStr bodyBytes)]
                                             ''Generated new auth key'' s5)))))"

section \<open>The token exchanger\<close>

definition Getenv :: "string \<Rightarrow> state \<Rightarrow> string" where
  "Getenv k s = (case map_of (environ s) k of None \<Rightarrow> [] | Some v \<Rightarrow> v)"

text \<open>\<open>godotenv.Load\<close> sets the variables of the file that the environment does not have
  yet, and fails when the file cannot be read.\<close>

fun set_missing :: "(string \<times> string) list \<Rightarrow> string \<times> string \<Rightarrow> (string \<times> string) list" where
  "set_missing env (k, v) = (if map_of env k = None then env @ [(k, v)] else env)"

definition godotenv_Load :: "string + (string \<times> string) list \<Rightarrow> state \<Rightarrow> string option \<times> state" where
  "godotenv_Load file s =
     (case file of
        Inl e \<Rightarrow> (Some e, s)
      | Inr kvs \<Rightarrow> (None, s\<lparr>environ := foldl set_missing (environ s) kvs\<rparr>))"

text \<open>\<open>log.Println\<close> of the standard library, which \<open>oauth.go\<close> imports: it writes
  whatever the logrus level is.\<close>

definition Println :: "string \<Rightarrow> state \<Rightarrow> state" where
  "Println msg s = s\<lparr>logs := logs s @ [StdLog msg]\<rparr>"

text \<open>
  Modelled from the spec: \<open>clientcredentials.Config.Client\<close> (package
  \<open>golang.org/x/oauth2\<close>, not among the sources). Section 4.1 of the specification:
  constructing the client does not fail and acquires no token. The client is the
  configuration; \<open>client_Do\<close> above is its use.
\<close>

definition Config_Client :: "http_client \<Rightarrow> http_client" where
  "Config_Client cfg = cfg"

text \<open>\<open>GetAccessToken\<close>, \<open>oauth.go\<close>. The result is the client and the error (always
  \<open>nil\<close>, here \<open>None\<close>), with the state after the call.\<close>

definition GetAccessToken :: "world \<Rightarrow> state \<Rightarrow> (http_client \<times> string option) \<times> state" where
  "GetAccessToken w s0 =
     (let (err, s1) = godotenv_Load (dotenv w) s0;
          s2 = (if err \<noteq> None
                then Println ''No .env file found, using system environment variables.'' s1
                else s1);
          clientID = Getenv ''TS_CLIENT_ID'' s2;
          clientSecret = Getenv ''TS_CLIENT_SECRET'' s2;
          tailnet = (let t = Getenv ''TS_TAILNET'' s2 in if t = [] then ''example'' else t);
          oauthConfig = \<lparr>ClientID = clientID, ClientSecret = clientSecret,
                         TokenURL = ''https://api.tailscale.com/api/v2/oauth/token''\<rparr>;
          client = Config_Client oauthConfig
      in ((client, None), s2))"

section \<open>The start of the program\<close>

record Config =
  TargetPort :: int
  Hostname :: string
  LogLevel :: string

text \<open>
  \<open>strings.ToLower\<close>, on bytes: the upper-case ASCII letters are mapped, every other byte
  is kept. The library also maps letters outside ASCII, but none of them to a letter of
  \<open>debug\<close> or \<open>error\<close>, so the comparison in \<open>setupLogging\<close> is not affected.
\<close>

definition lower_byte :: "char \<Rightarrow> char" where
  "lower_byte c =
     (let n = (of_char c :: nat) in if 65 \<le> n \<and> n \<le> 90 then char_of (n + 32) else c)"

definition ToLower :: "string \<Rightarrow> string" where
  "ToLower s = map lower_byte s"

definition setupLogging :: "string \<Rightarrow> state \<Rightarrow> state" where
  "setupLogging level s =
     (let l = ToLower level
      in if l = ''debug'' then s\<lparr>logLevel := DebugLevel\<rparr>
         else if l = ''error'' then s\<lparr>logLevel := ErrorLevel\<rparr>
         else s\<lparr>logLevel := InfoLevel\<rparr>)"

definition loadEnvConfig :: "world \<Rightarrow> state \<Rightarrow> string option \<times> state" where
  "loadEnvConfig w s =
     (case executable_error w of
        Some e \<Rightarrow> (Some (''failed to get executable path: '' @ e), s)
      | None \<Rightarrow>
          (let (err1, s1) = godotenv_Load (dotenv_exe w) s
           in if err1 \<noteq> None
              then (let (err2, s2) = godotenv_Load (dotenv w) s1
                    in if err2 \<noteq> None
                       then (Some ''no .env file found in executable directory or current directory'', s2)
                       else (None, s2))
              else (None, s1)))"

text \<open>How the start of \<open>main\<close> ends: the process exits with a status (after
  \<open>log.Fatal\<close>), it panics (a \<open>nil\<close> request handed to \<open>client.Do\<close>), or it holds the
  provisioned key and goes on to join the mesh.\<close>

datatype outcome = Exit int | Panic | Provisioned TailscaleAuthKey

definition Fatal :: "string \<Rightarrow> state \<Rightarrow> outcome \<times> state" where
  "Fatal msg s = (Exit 1, logrus_log FatalLevel [] msg s)"

text \<open>\<open>main\<close>, \<open>main.go\<close> lines 175-208, from the parsed flags to the provisioned key.\<close>

definition main_provision :: "world \<Rightarrow> Config \<Rightarrow> state \<Rightarrow> outcome \<times> state" where
  "main_provision w cfg s0 =
     (let s1 = setupLogging (LogLevel cfg) s0;
          (err, s2) = loadEnvConfig w s1;
          s3 = (case err of Some e \<Rightarrow> Debug [] e s2 | None \<Rightarrow> s2);
          tailnet = Getenv ''TS_TAILNET'' s3
      in if tailnet = []
         then Fatal ''TS_TAILNET environment variable is required'' s3
         else
           (let ((client, _), s4) = GetAccessToken w s3;
                testEndpoint = tailscaleAPIBase @ ''/tailnet/'' @ tailnet @ ''/devices''
            in case NewRequestWithContext w ''GET'' testEndpoint [] of
                 Inl _ \<Rightarrow> (Panic, s4)
               | Inr req \<Rightarrow>
                   (let (r, s5) = client_Do w client req s4
                    in case r of
                         Inl e \<Rightarrow> Fatal (''Failed to test OAuth token: '' @ e) s5
                       | Inr resp \<Rightarrow>
                           (let s6 = Debug [(''status'', FInt (StatusCode resp))]
                                       ''OAuth token test request completed'' s5;
                                (k, s7) = generateAuthKey w client tailnet s6
                            in case k of
                                 Inl e \<Rightarrow> Fatal (''Failed to generate auth key: '' @ Error e) s7
                               | Inr authKey \<Rightarrow> (Provisioned authKey, s7)))))"

section \<open>Observing a run\<close>

text \<open>The network traffic a call added to the wire, and the API requests among it.\<close>

definition new_wire :: "state \<Rightarrow> state \<Rightarrow> wire_event list" where
  "new_wire s s' = drop (length (wire s)) (wire s')"

fun api_requests :: "wire_event list \<Rightarrow> request list" where
  "api_requests [] = []"
| "api_requests (TokenRequest u i k # evs) = api_requests evs"
| "api_requests (ApiRequest q # evs) = q # api_requests evs"

text \<open>The result that \<open>generateAuthKey\<close> forms from the outcome of \<open>client.Do\<close>
  (lines 146-172).\<close>

definition result_of :: "world \<Rightarrow> string + response \<Rightarrow> error + TailscaleAuthKey" where
  "result_of w a =
     (case a of
        Inl e \<Rightarrow> Inl (NetworkError e)
      | Inr resp \<Rightarrow>
          if StatusCode resp \<noteq> 200
          then Inl (ProvisioningError (StatusCode resp) (fst (BodyRead resp)))
          else (case json_Unmarshal w (fst (BodyRead resp)) of
                  Inl e \<Rightarrow> Inl (DecodeError e)
                | Inr k \<Rightarrow> Inr k))"

text \<open>The parts of a run of \<open>generateAuthKey\<close>: the endpoint (line 107), the request handed
  to \<open>client.Do\<close> (lines 110-143), the state in which it is handed over, and what follows the
  return of \<open>client.Do\<close> (lines 146-172). Lemma \<open>generateAuthKey_unfold\<close> below shows that
  the function is composed of exactly these.\<close>

definition endpoint_of :: "string \<Rightarrow> string" where
  "endpoint_of tailnet = tailscaleAPIBase @ ''/tailnet/'' @ tailnet @ ''/keys''"

text \<open>The URL that the request carries when the endpoint parses (and no URL otherwise).\<close>

definition request_url :: "world \<Rightarrow> string \<Rightarrow> string" where
  "request_url w tailnet = (case url_Parse w (endpoint_of tailnet) of Inr u \<Rightarrow> u | Inl e \<Rightarrow> [])"

definition built_request :: "world \<Rightarrow> string \<Rightarrow> state \<Rightarrow> request" where
  "built_request w tailnet s = \<lparr>Method = ''POST'', URL = request_url w tailnet,
      Header = [(''Content-Type'', ''application/json'')],
      Body = encode (reqBody \<lparr>wall = wall_clock w (ticks s) + authKeyExpiryDays * 24 * Hour,
                                mono = Some (mono_clock w (ticks s) + authKeyExpiryDays * 24 * Hour)\<rparr>
                             \<lparr>wall = wall_clock w (Suc (ticks s)), mono = Some (mono_clock w (Suc (ticks s)))\<rparr>)\<rparr>"

definition before_send :: "world \<Rightarrow> string \<Rightarrow> state \<Rightarrow> state" where
  "before_send w tailnet s =
     Debug [(''endpoint'', FStr (endpoint_of tailnet)), (''body'', FStr (Body (built_request w tailnet s)))]
       ''Sending auth key request''
       ((Debug [(''endpoint'', FStr (endpoint_of tailnet))] ''Generating new auth key'' s)
          \<lparr>ticks := Suc (Suc (ticks s))\<rparr>)"

definition finish :: "world \<Rightarrow> string \<Rightarrow> string + response \<Rightarrow> state \<Rightarrow> (error + TailscaleAuthKey) \<times> state" where
  "finish w tailnet a s5 =
     (case a of
        Inl e \<Rightarrow> (Inl (NetworkError e), s5)
      | Inr resp \<Rightarrow>
          if StatusCode resp \<noteq> 200
          then (Inl (ProvisioningError (StatusCode resp) (fst (BodyRead resp))),
                Debug [(''status_code'', FInt (StatusCode resp)),
                       (''endpoint'', FStr (endpoint_of tailnet)),
                       (''response'', FStr (fst (BodyRead resp)))]
                  ''Auth key request failed'' s5)
          else (case json_Unmarshal w (fst (BodyRead resp)) of
                  Inl e \<Rightarrow> (Inl (DecodeError e), s5)
                | Inr authKey \<Rightarrow>
                    (Inr authKey,
                     Debug [(''key_id'', FStr (ID authKey)),
                            (''expires'', FTime (Expires authKey)),
                            (''endpoint'', FStr (endpoint_of tailnet)),
                            (''response'', FStr (fst (BodyRead resp)))]
                       ''Generated new auth key'' s5)))"

text \<open>
  The request body of section 6 of the specification, with \<open>expirySeconds\<close> set to \<open>n\<close>
  (lemma \<open>encode_AuthKeyRequest\<close> below gives its bytes), and the time that remains from
  the second clock reading of a call to the expiry instant, which is the first reading plus
  14 days.
\<close>

definition AuthKeyRequest :: "int \<Rightarrow> json" where
  "AuthKeyRequest n =
     JObj [(''capabilities'',
              JObj [(''devices'',
                JObj [(''create'',
                  JObj [(''reusable'', JBool False),
                        (''ephemeral'', JBool True),
                        (''preauthorized'', JBool True),
                        (''tags'', JArr [JStr ''tag:server''])])])]),
           (''expirySeconds'', JInt n)]"

definition remaining :: "world \<Rightarrow> state \<Rightarrow> Duration" where
  "remaining w s =
     mono_clock w (ticks s) + authKeyExpiryDays * 24 * Hour - mono_clock w (Suc (ticks s))"

text \<open>A text that \<open>net/url\<close> leaves as it is in a path: none of its bytes is escaped
  there.\<close>

definition plain_path :: "string \<Rightarrow> bool" where
  "plain_path s = list_all (\<lambda>c. \<not> shouldEscape_path c) s"

text \<open>A member of a JSON object that, if its name matches one of the five tags when letter
  case is ignored, is the member of exactly that name with the given value.\<close>

definition well_tagged :: "string \<Rightarrow> string \<Rightarrow> string \<Rightarrow> string \<Rightarrow> bool \<Rightarrow> string \<times> jvalue \<Rightarrow> bool" where
  "well_tagged i k c e b m =
     ((foldName (fst m) = ''ID'' \<longrightarrow> m = (''id'', VString i))
      \<and> (foldName (fst m) = ''KEY'' \<longrightarrow> m = (''key'', VString k))
      \<and> (foldName (fst m) = ''CREATED'' \<longrightarrow> m = (''created'', VString c))
      \<and> (foldName (fst m) = ''EXPIRES'' \<longrightarrow> m = (''expires'', VString e))
      \<and> (foldName (fst m) = ''EPHEMERAL'' \<longrightarrow> m = (''ephemeral'', VBool b)))"

text \<open>The log lines a call added, and the lines that are logrus entries of level Debug.\<close>

definition new_logs :: "state \<Rightarrow> state \<Rightarrow> log_line list" where
  "new_logs s s' = drop (length (logs s)) (logs s')"

definition is_debug_entry :: "log_line \<Rightarrow> bool" where
  "is_debug_entry l = (case l of StdLog m \<Rightarrow> False | Logrus lv m fs \<Rightarrow> lv = DebugLevel)"

section \<open>Concrete scenarios\<close>

text \<open>The end-to-end scenarios of section 8 of the specification: the credentials
  \<open>abc\<close>/\<open>xyz\<close>, the tailnet \<open>example\<close>, a token endpoint that issues a token
  unless a credential is empty, an API that gives one fixed answer, and a clock whose
  readings are \<open>drift\<close> nanoseconds apart. \<open>scenario_key\<close> is the record that the
  success body of the scenario stands for.\<close>

definition scenario_body :: string where
  \<open>scenario_body = ''{"id":"k1","key":"tskey-abc123","created":"2024-01-01T00:00:00Z","expires":"2024-01-15T00:00:00Z","ephemeral":true}''\<close>

definition scenario_key :: TailscaleAuthKey where
  "scenario_key = \<lparr>ID = ''k1'', Key = ''tskey-abc123'',
     Created = \<lparr>wall = 1704067200 * Second, mono = None\<rparr>,
     Expires = \<lparr>wall = 1705276800 * Second, mono = None\<rparr>,
     Ephemeral = True\<rparr>"

definition test_world :: "int \<Rightarrow> (string + response) \<Rightarrow> world" where
  "test_world drift answer =
     \<lparr>wall_clock = (\<lambda>n. 1704067200 * Second + int n * drift),
      mono_clock = (\<lambda>n. int n * drift),
      token_endpoint = (\<lambda>i k. if i = [] \<or> k = [] then Inl ''oauth2: cannot fetch token''
                               else Inr ''tok''),
      api = (\<lambda>q. answer),
      executable_error = None,
      dotenv_exe = Inl ''open .env: no such file or directory'',
      dotenv = Inl ''open .env: no such file or directory'',
      url_other = (\<lambda>u. Inr u),
      url_error_text = (\<lambda>u. ''net/url: invalid URL escape''),
      json_other = (\<lambda>b. Inl ''invalid character in string escape code''),
      json_error_text = (\<lambda>b. if b = take 20 scenario_body
                               then ''unexpected end of JSON input''
                               else ''invalid character '<' looking for beginning of value''),
      time_other = (\<lambda>t. None)\<rparr>"

definition test_client :: http_client where
  "test_client = \<lparr>ClientID = ''abc'', ClientSecret = ''xyz'', TokenURL = tailscaleAuthURL\<rparr>"

definition test_state :: "Level \<Rightarrow> state" where
  "test_state l = \<lparr>ticks = 0, token = None, wire = [], logs = [], logLevel = l,
     environ = [(''TS_CLIENT_ID'', ''abc''), (''TS_CLIENT_SECRET'', ''xyz''), (''TS_TAILNET'', ''example'')]\<rparr>"

definition forbidden :: response where
  \<open>forbidden = \<lparr>StatusCode = 403, BodyRead = (''{"message":"invalid tags"}'', None)\<rparr>\<close>

text \<open>Three answers with status 200: the success body of the scenario, a body that is not
  JSON, and a body cut off by a read error after 20 bytes.\<close>

definition ok_response :: response where
  "ok_response = \<lparr>StatusCode = 200, BodyRead = (scenario_body, None)\<rparr>"

definition garbled_response :: response where
  "garbled_response = \<lparr>StatusCode = 200, BodyRead = (''<html>Bad Gateway</html>'', None)\<rparr>"

definition cut_response :: response where
  "cut_response = \<lparr>StatusCode = 200, BodyRead = (take 20 scenario_body, Some ''unexpected EOF'')\<rparr>"

text \<open>A process state without any of the three variables, a state with a cached token, and
  the flags of the README's first example.\<close>

definition bare_state :: state where
  "bare_state = \<lparr>ticks = 0, token = None, wire = [], logs = [], logLevel = ErrorLevel,
     environ = [(''HOME'', ''/root'')]\<rparr>"

definition cached_state :: state where
  "cached_state = \<lparr>ticks = 0, token = Some ''tok'', wire = [], logs = [], logLevel = ErrorLevel,
     environ = []\<rparr>"

definition test_config :: Config where
  "test_config = \<lparr>TargetPort = 8080, Hostname = ''webui'', LogLevel = ''error''\<rparr>"

section \<open>Lemmas\<close>

subsection \<open>URLs\<close>

text \<open>Bytes that a path keeps are no separators, no percent signs and no control characters.\<close>

lemma kept_byte:
  assumes "\<not> shouldEscape_path c"
  shows "c \<noteq> CHR ''#''" and "c \<noteq> CHR ''?''" and "c \<noteq> CHR ''%''" and "\<not> is_ctl c"
  using assms by (auto simp: shouldEscape_path_def is_alnum_def is_ctl_def Let_def)

lemma plain_path_cut:
  "plain_path p \<Longrightarrow> sep = CHR ''#'' \<or> sep = CHR ''?'' \<Longrightarrow> cut sep p = (p, None)"
  by (induction p) (auto simp: plain_path_def dest: kept_byte)

lemma plain_path_ctl: "plain_path p \<Longrightarrow> \<not> list_ex is_ctl p"
  by (induction p) (auto simp: plain_path_def dest: kept_byte)

lemma plain_path_unescape: "plain_path p \<Longrightarrow> unescape p = Some p"
  by (induction p) (auto simp: plain_path_def dest: kept_byte)

lemma plain_path_escape: "plain_path p \<Longrightarrow> escape shouldEscape_path p = p"
  by (induction p) (auto simp: plain_path_def escape_def)

lemma plain_path_api_url:
  "plain_path p \<Longrightarrow> api_url p = Some (''https://api.tailscale.com'' @ p)"
  by (simp add: api_url_def plain_path_cut plain_path_ctl plain_path_unescape
      plain_path_escape escaped_form_def)

lemma plain_path_endpoint:
  "plain_path tailnet \<Longrightarrow> plain_path (''/api/v2/tailnet/'' @ tailnet @ ''/keys'')"
  by (simp add: plain_path_def shouldEscape_path_def is_alnum_def)

lemma plain_url_Parse:
  assumes "plain_path tailnet"
  shows "url_Parse w (endpoint_of tailnet) = Inr (endpoint_of tailnet)"
proof -
  have "strip_prefix ''https://api.tailscale.com/'' (endpoint_of tailnet) =
          Some (''api/v2/tailnet/'' @ tailnet @ ''/keys'')"
    by (simp add: endpoint_of_def tailscaleAPIBase_def)
  moreover have "api_url (CHR ''/'' # ''api/v2/tailnet/'' @ tailnet @ ''/keys'') =
          Some (endpoint_of tailnet)"
    using plain_path_api_url [OF plain_path_endpoint [OF assms]]
    by (simp add: endpoint_of_def tailscaleAPIBase_def)
  ultimately show ?thesis
    by (simp add: url_Parse_def)
qed

lemma plain_example: "plain_path ''example''"
  by (simp add: plain_path_def shouldEscape_path_def is_alnum_def)

lemma plain_empty: "plain_path []"
  by (simp add: plain_path_def)

lemma spaced_url_Parse:
  "url_Parse w (endpoint_of ''a b'') = Inr ''https://api.tailscale.com/api/v2/tailnet/a%20b/keys''"
proof -
  have "api_url ''/api/v2/tailnet/a b/keys'' = Some ''https://api.tailscale.com/api/v2/tailnet/a%20b/keys''"
    by code_simp
  then show ?thesis
    by (simp add: url_Parse_def endpoint_of_def tailscaleAPIBase_def)
qed

subsection \<open>The scanner\<close>

text \<open>What a scanner leaves is not longer than what it was given.\<close>

lemma skip_space_length: "length (skip_space cs) \<le> length cs"
  by (induction cs) auto

lemma skip_space_Cons: "skip_space cs = x # r \<Longrightarrow> length r < length cs"
  using skip_space_length [of cs] by simp

lemma scan_string_length: "scan_string acc cs = Ok s r \<Longrightarrow> length r < length cs"
  by (induction acc cs rule: scan_string.induct) (auto split: if_splits)

lemma scan_string_Fuel: "scan_string acc cs \<noteq> Fuel"
  by (induction acc cs rule: scan_string.induct) auto

lemma scan_literal_length: "scan_literal l cs = Some r \<Longrightarrow> length r \<le> length cs"
  by (induction l cs rule: scan_literal.induct) (auto split: if_splits)

lemma scan_digits_length: "scan_digits cs = (ds, r) \<Longrightarrow> length r \<le> length cs"
  by (induction cs arbitrary: ds r) (auto split: if_splits prod.splits)

lemma scan_fraction_length: "scan_fraction cs = Some (f, r) \<Longrightarrow> length r \<le> length cs"
  by (auto simp: scan_fraction_def split: list.splits if_splits prod.splits dest!: scan_digits_length)

lemma scan_exponent_length: "scan_exponent cs = Some (f, r) \<Longrightarrow> length r \<le> length cs"
proof (cases cs)
  case Nil
  then show "scan_exponent cs = Some (f, r) \<Longrightarrow> length r \<le> length cs"
    by (simp add: scan_exponent_def)
next
  case (Cons c r0)
  assume a: "scan_exponent cs = Some (f, r)"
  show "length r \<le> length cs"
  proof (cases "c = CHR ''e'' \<or> c = CHR ''E''")
    case False
    with a Cons show ?thesis by (simp add: scan_exponent_def)
  next
    case True
    define r1 where "r1 = (case r0 of [] \<Rightarrow> [] | x # r' \<Rightarrow> if x = CHR ''+'' \<or> x = CHR ''-'' then r' else r0)"
    have l1: "length r1 \<le> length r0"
      by (simp add: r1_def split: list.splits)
    obtain ds r2 where sd: "scan_digits r1 = (ds, r2)"
      by (cases "scan_digits r1")
    from a Cons True sd have "r = r2"
      by (auto simp: scan_exponent_def r1_def split: list.splits if_splits)
    with scan_digits_length [OF sd] l1 Cons show ?thesis by simp
  qed
qed

lemma scan_number_Fuel: "scan_number cs \<noteq> Fuel"
  by (simp add: scan_number_def Let_def split: prod.splits option.splits)

lemma whole_length:
  assumes "(case r0 of [] \<Rightarrow> None
            | c # r \<Rightarrow> if c = CHR ''0'' then Some ([c], r)
                       else if is_digit c then Some (scan_digits r0) else None) = Some (ds, r1)"
  shows "length r1 \<le> length r0"
proof (cases r0)
  case Nil
  with assms show ?thesis by simp
next
  case (Cons c r)
  show ?thesis
  proof (cases "c = CHR ''0''")
    case True
    with assms Cons show ?thesis by simp
  next
    case False
    with assms Cons have "scan_digits r0 = (ds, r1)"
      by (simp split: if_splits)
    from scan_digits_length [OF this] show ?thesis .
  qed
qed

lemma scan_number_length:
  assumes "scan_number cs = Ok s r"
  shows "length r \<le> length cs"
proof -
  obtain sign r0 where sr: "(case cs of [] \<Rightarrow> ([], [])
       | c # r \<Rightarrow> if c = CHR ''-'' then ([c], r) else ([], cs)) = (sign, r0)"
    by (cases "(case cs of [] \<Rightarrow> ([], [])
       | c # r \<Rightarrow> if c = CHR ''-'' then ([c], r) else ([], cs))")
  have l0: "length r0 \<le> length cs"
    using sr by (cases cs) (auto split: if_splits)
  from assms obtain ds r1 fr r2 ex
    where w: "(case r0 of [] \<Rightarrow> None
            | c # r \<Rightarrow> if c = CHR ''0'' then Some ([c], r)
                       else if is_digit c then Some (scan_digits r0) else None) = Some (ds, r1)"
      and f: "scan_fraction r1 = Some (fr, r2)"
      and e: "scan_exponent r2 = Some (ex, r)"
    unfolding scan_number_def Let_def sr
    by (simp split: option.splits prod.splits)
  from whole_length [OF w] scan_fraction_length [OF f] scan_exponent_length [OF e] l0
  show ?thesis by simp
qed

lemma scan_length:
  "(\<forall>v r. scan_value n d cs = Ok v r \<longrightarrow> length r \<le> length cs)"
  "(\<forall>v r. scan_members n d acc cs = Ok v r \<longrightarrow> length r \<le> length cs)"
  "(\<forall>v r. scan_elements n d acc' cs = Ok v r \<longrightarrow> length r \<le> length cs)"
proof (induction n d cs and n d acc cs and n d acc' cs rule: scan_value_scan_members_scan_elements.induct)
  case (1 d cs)
  show ?case by simp
next
  case (2 n d cs)
  show ?case
  proof (intro allI impI)
    fix v r assume ok: "scan_value (Suc n) d cs = Ok v r"
    show "length r \<le> length cs"
    proof (cases "skip_space cs")
      case Nil
      with ok show ?thesis by simp
    next
      case (Cons c r0)
      note sk = skip_space_Cons [OF Cons]
      consider (obj) "c = CHR ''{''" | (arr) "c \<noteq> CHR ''{''" "c = CHR ''[''"
        | (other) "c \<noteq> CHR ''{''" "c \<noteq> CHR ''[''"
        by blast
      then show ?thesis
      proof cases
        case obj
        show ?thesis
        proof (cases "skip_space r0")
          case Nil
          with ok Cons obj show ?thesis by (simp split: if_splits)
        next
          case c2: (Cons x r')
          note sk2 = skip_space_Cons [OF c2]
          show ?thesis
          proof (cases "maxNestingDepth \<le> d \<or> x = CHR ''}''")
            case True
            with ok Cons obj c2 sk sk2 show ?thesis by (auto split: if_splits)
          next
            case False
            with ok Cons obj c2 have "scan_members n (Suc d) [] (x # r') = Ok v r"
              by simp
            with "2.IH"(1) [OF Cons obj _ c2] False have "length r \<le> length (x # r')"
              by auto
            with sk sk2 show ?thesis by simp
          qed
        qed
      next
        case arr
        show ?thesis
        proof (cases "skip_space r0")
          case Nil
          with ok Cons arr show ?thesis by (simp split: if_splits)
        next
          case c2: (Cons x r')
          note sk2 = skip_space_Cons [OF c2]
          show ?thesis
          proof (cases "maxNestingDepth \<le> d \<or> x = CHR '']''")
            case True
            with ok Cons arr c2 sk sk2 show ?thesis by (auto split: if_splits)
          next
            case False
            with ok Cons arr c2 have "scan_elements n (Suc d) [] (x # r') = Ok v r"
              by simp
            with "2.IH"(2) [OF Cons arr(1) arr(2) _ c2] False have "length r \<le> length (x # r')"
              by auto
            with sk sk2 show ?thesis by simp
          qed
        qed
      next
        case other
        consider (str) "c = CHR 0x22" | (t) "c = CHR ''t''" | (f) "c = CHR ''f''" | (n) "c = CHR ''n''"
          | (num) "c \<noteq> CHR 0x22" "c \<noteq> CHR ''t''" "c \<noteq> CHR ''f''" "c \<noteq> CHR ''n''"
                  "c = CHR ''-'' \<or> is_digit c"
          | (bad) "c \<noteq> CHR 0x22" "c \<noteq> CHR ''t''" "c \<noteq> CHR ''f''" "c \<noteq> CHR ''n''"
                  "\<not> (c = CHR ''-'' \<or> is_digit c)"
          by blast
        then show ?thesis
        proof cases
          case str
          with ok Cons obtain s where "scan_string [] r0 = Ok s r"
            by (cases "scan_string [] r0") auto
          from scan_string_length [OF this] sk show ?thesis by simp
        next
          case t
          with ok Cons have "scan_literal ''rue'' r0 = Some r"
            by (cases "scan_literal ''rue'' r0") auto
          from scan_literal_length [OF this] sk show ?thesis by simp
        next
          case f
          with ok Cons have "scan_literal ''alse'' r0 = Some r"
            by (cases "scan_literal ''alse'' r0") auto
          from scan_literal_length [OF this] sk show ?thesis by simp
        next
          case n
          with ok Cons have "scan_literal ''ull'' r0 = Some r"
            by (cases "scan_literal ''ull'' r0") auto
          from scan_literal_length [OF this] sk show ?thesis by simp
        next
          case num
          with ok Cons other obtain s where "scan_number (c # r0) = Ok s r"
            by (cases "scan_number (c # r0)") auto
          from scan_number_length [OF this] skip_space_length [of cs] Cons show ?thesis by simp
        next
          case bad
          with ok Cons other show ?thesis by simp
        qed
      qed
    qed
  qed
next
  case (3 d acc cs)
  show ?case by simp
next
  case (4 n d acc cs)
  show ?case
  proof (intro allI impI)
    fix v r assume ok: "scan_members (Suc n) d acc cs = Ok v r"
    from ok obtain r0 where cs: "cs = CHR 0x22 # r0"
      by (cases cs) (auto split: if_splits)
    from ok cs obtain k r1 where st: "scan_string [] r0 = Ok k r1"
      by (cases "scan_string [] r0") auto
    from ok cs st obtain r2 where s1: "skip_space r1 = CHR '':'' # r2"
      by (cases "skip_space r1") (auto split: if_splits)
    from ok cs st s1 obtain v1 r3 where sv: "scan_value n d r2 = Ok v1 r3"
      by (cases "scan_value n d r2") auto
    from ok cs st s1 sv obtain y r4 where s3: "skip_space r3 = y # r4"
      by (cases "skip_space r3") auto
    have l1: "length r1 < length r0" by (rule scan_string_length [OF st])
    have l2: "length r2 < length r1" by (rule skip_space_Cons [OF s1])
    have l3: "length r3 \<le> length r2"
      using "4.IH"(1) [OF cs [THEN sym, THEN sym] _ st s1] sv cs by auto
    have l4: "length r4 < length r3" by (rule skip_space_Cons [OF s3])
    show "length r \<le> length cs"
    proof (cases "y = CHR ''}''")
      case True
      with ok cs st s1 sv s3 l1 l2 l3 l4 show ?thesis by auto
    next
      case False
      with ok cs st s1 sv s3 have y: "y = CHR '',''"
        and m: "scan_members n d (acc @ [(k, v1)]) (skip_space r4) = Ok v r"
        by (auto split: if_splits)
      have "length r \<le> length (skip_space r4)"
        using "4.IH"(2) [OF cs _ st s1 _ sv s3 False y] m by auto
      with skip_space_length [of r4] l1 l2 l3 l4 cs show ?thesis by simp
    qed
  qed
next
  case (5 d acc cs)
  show ?case by simp
next
  case (6 n d acc cs)
  show ?case
  proof (intro allI impI)
    fix v r assume ok: "scan_elements (Suc n) d acc cs = Ok v r"
    from ok obtain v1 r1 where sv: "scan_value n d cs = Ok v1 r1"
      by (cases "scan_value n d cs") auto
    from ok sv obtain y r2 where s1: "skip_space r1 = y # r2"
      by (cases "skip_space r1") auto
    have l1: "length r1 \<le> length cs"
      using "6.IH"(1) sv by auto
    have l2: "length r2 < length r1" by (rule skip_space_Cons [OF s1])
    show "length r \<le> length cs"
    proof (cases "y = CHR '']''")
      case True
      with ok sv s1 l1 l2 show ?thesis by auto
    next
      case False
      with ok sv s1 have y: "y = CHR '',''"
        and m: "scan_elements n d (acc @ [v1]) r2 = Ok v r"
        by (auto split: if_splits)
      have "length r \<le> length r2"
        using "6.IH"(2) [OF sv s1 False y] m by auto
      with l1 l2 show ?thesis by simp
    qed
  qed
qed

text \<open>The recursion budget of \<open>scan_json\<close> is never used up: twice the length of the text
  and one more are enough.\<close>

lemma scan_fuel:
  "2 * length cs + 1 \<le> n \<longrightarrow> scan_value n d cs \<noteq> Fuel"
  "2 * length cs + 2 \<le> n \<longrightarrow> scan_members n d acc cs \<noteq> Fuel"
  "2 * length cs + 2 \<le> n \<longrightarrow> scan_elements n d acc' cs \<noteq> Fuel"
proof (induction n d cs and n d acc cs and n d acc' cs rule: scan_value_scan_members_scan_elements.induct)
  case (1 d cs)
  show ?case by simp
next
  case (2 n d cs)
  show ?case
  proof
    assume n: "2 * length cs + 1 \<le> Suc n"
    show "scan_value (Suc n) d cs \<noteq> Fuel"
    proof (cases "skip_space cs")
      case Nil
      then show ?thesis by simp
    next
      case (Cons c r0)
      note sk = skip_space_Cons [OF Cons]
      consider (obj) "c = CHR ''{''" | (arr) "c \<noteq> CHR ''{''" "c = CHR ''[''"
        | (other) "c \<noteq> CHR ''{''" "c \<noteq> CHR ''[''"
        by blast
      then show ?thesis
      proof cases
        case obj
        show ?thesis
        proof (cases "skip_space r0")
          case Nil
          with Cons obj show ?thesis by simp
        next
          case c2: (Cons x r')
          note sk2 = skip_space_length [of r0]
          show ?thesis
          proof (cases "maxNestingDepth \<le> d \<or> x = CHR ''}''")
            case True
            with Cons obj c2 show ?thesis by auto
          next
            case False
            have "2 * length (x # r') + 2 \<le> n"
              using n sk sk2 c2 by simp
            with "2.IH"(1) [OF Cons obj _ c2] False have "scan_members n (Suc d) [] (x # r') \<noteq> Fuel"
              by auto
            with Cons obj c2 False show ?thesis by simp
          qed
        qed
      next
        case arr
        show ?thesis
        proof (cases "skip_space r0")
          case Nil
          with Cons arr show ?thesis by simp
        next
          case c2: (Cons x r')
          note sk2 = skip_space_length [of r0]
          show ?thesis
          proof (cases "maxNestingDepth \<le> d \<or> x = CHR '']''")
            case True
            with Cons arr c2 show ?thesis by auto
          next
            case False
            have "2 * length (x # r') + 2 \<le> n"
              using n sk sk2 c2 by simp
            with "2.IH"(2) [OF Cons arr(1) arr(2) _ c2] False
            have "scan_elements n (Suc d) [] (x # r') \<noteq> Fuel"
              by auto
            with Cons arr c2 False show ?thesis by simp
          qed
        qed
      next
        case other
        consider (str) "c = CHR 0x22" | (t) "c = CHR ''t''" | (f) "c = CHR ''f''" | (n) "c = CHR ''n''"
          | (num) "c \<noteq> CHR 0x22" "c \<noteq> CHR ''t''" "c \<noteq> CHR ''f''" "c \<noteq> CHR ''n''"
                  "c = CHR ''-'' \<or> is_digit c"
          | (bad) "c \<noteq> CHR 0x22" "c \<noteq> CHR ''t''" "c \<noteq> CHR ''f''" "c \<noteq> CHR ''n''"
                  "\<not> (c = CHR ''-'' \<or> is_digit c)"
          by blast
        then show ?thesis
        proof cases
          case str
          with Cons scan_string_Fuel [of "[]" r0] show ?thesis
            by (cases "scan_string [] r0") auto
        next
          case t
          with Cons show ?thesis
            by (cases "scan_literal ''rue'' r0") auto
        next
          case f
          with Cons show ?thesis
            by (cases "scan_literal ''alse'' r0") auto
        next
          case n
          with Cons show ?thesis
            by (cases "scan_literal ''ull'' r0") auto
        next
          case num
          with Cons other scan_number_Fuel [of "c # r0"] show ?thesis
            by (cases "scan_number (c # r0)") auto
        next
          case bad
          with Cons other show ?thesis by simp
        qed
      qed
    qed
  qed
next
  case (3 d acc cs)
  show ?case by simp
next
  case (4 n d acc cs)
  show ?case
  proof
    assume n: "2 * length cs + 2 \<le> Suc n"
    show "scan_members (Suc n) d acc cs \<noteq> Fuel"
    proof
      assume fu: "scan_members (Suc n) d acc cs = Fuel"
      from fu obtain r0 where cs: "cs = CHR 0x22 # r0"
        by (cases cs) (auto split: if_splits)
      from fu cs scan_string_Fuel [of "[]" r0] obtain k r1 where st: "scan_string [] r0 = Ok k r1"
        by (cases "scan_string [] r0") auto
      from fu cs st obtain r2 where s1: "skip_space r1 = CHR '':'' # r2"
        by (cases "skip_space r1") (auto split: if_splits)
      have l1: "length r1 < length r0" by (rule scan_string_length [OF st])
      have l2: "length r2 < length r1" by (rule skip_space_Cons [OF s1])
      have "2 * length r2 + 1 \<le> n"
        using n cs l1 l2 by simp
      with "4.IH"(1) [OF cs _ st s1] have nf: "scan_value n d r2 \<noteq> Fuel"
        by auto
      with fu cs st s1 obtain v1 r3 where sv: "scan_value n d r2 = Ok v1 r3"
        by (cases "scan_value n d r2") auto
      from fu cs st s1 sv obtain y r4 where s3: "skip_space r3 = y # r4"
        by (cases "skip_space r3") auto
      have l3: "length r3 \<le> length r2"
        using scan_length(1) [of n d r2] sv by auto
      have l4: "length r4 < length r3" by (rule skip_space_Cons [OF s3])
      from fu cs st s1 sv s3 have y: "y \<noteq> CHR ''}''" "y = CHR '',''"
        and m: "scan_members n d (acc @ [(k, v1)]) (skip_space r4) = Fuel"
        by (auto split: if_splits)
      have "2 * length (skip_space r4) + 2 \<le> n"
        using n cs l1 l2 l3 l4 skip_space_length [of r4] by simp
      with "4.IH"(2) [OF cs _ st s1 _ sv s3 y] m show False
        by auto
    qed
  qed
next
  case (5 d acc cs)
  show ?case by simp
next
  case (6 n d acc cs)
  show ?case
  proof
    assume n: "2 * length cs + 2 \<le> Suc n"
    show "scan_elements (Suc n) d acc cs \<noteq> Fuel"
    proof
      assume fu: "scan_elements (Suc n) d acc cs = Fuel"
      have "2 * length cs + 1 \<le> n"
        using n by simp
      with "6.IH"(1) have nf: "scan_value n d cs \<noteq> Fuel"
        by auto
      with fu obtain v1 r1 where sv: "scan_value n d cs = Ok v1 r1"
        by (cases "scan_value n d cs") auto
      from fu sv obtain y r2 where s1: "skip_space r1 = y # r2"
        by (cases "skip_space r1") auto
      have l1: "length r1 \<le> length cs"
        using scan_length(1) [of n d cs] sv by auto
      have l2: "length r2 < length r1" by (rule skip_space_Cons [OF s1])
      from fu sv s1 have y: "y \<noteq> CHR '']''" "y = CHR '',''"
        and m: "scan_elements n d (acc @ [v1]) r2 = Fuel"
        by (auto split: if_splits)
      have "2 * length r2 + 2 \<le> n"
        using n l1 l2 by simp
      with "6.IH"(2) [OF sv s1 y] m show False
        by auto
    qed
  qed
qed

lemma scan_json_fuel: "scan_json data \<noteq> Fuel"
  using scan_fuel(1) [of data "2 * length data + 1" 0]
  by (auto simp: scan_json_def split: scan.splits)

subsection \<open>Decoding\<close>

lemma foldName_tags:
  "foldName ''id'' = ''ID''" "foldName ''key'' = ''KEY''" "foldName ''created'' = ''CREATED''"
  "foldName ''expires'' = ''EXPIRES''" "foldName ''ephemeral'' = ''EPHEMERAL''"
  by code_simp+

lemma store_well_tagged:
  assumes "well_tagged i k c e b m"
    and "time_Parse w c = Some tc" and "time_Parse w e = Some te"
  shows "store w r m =
           Some (if m = (''id'', VString i) then r\<lparr>ID := i\<rparr>
                 else if m = (''key'', VString k) then r\<lparr>Key := k\<rparr>
                 else if m = (''created'', VString c) then r\<lparr>Created := tc\<rparr>
                 else if m = (''expires'', VString e) then r\<lparr>Expires := te\<rparr>
                 else if m = (''ephemeral'', VBool b) then r\<lparr>Ephemeral := b\<rparr>
                 else r)"
proof -
  consider "foldName (fst m) = ''ID''" | "foldName (fst m) = ''KEY''"
    | "foldName (fst m) = ''CREATED''" | "foldName (fst m) = ''EXPIRES''"
    | "foldName (fst m) = ''EPHEMERAL''"
    | "foldName (fst m) \<notin> {''ID'', ''KEY'', ''CREATED'', ''EXPIRES'', ''EPHEMERAL''}"
    by blast
  then show ?thesis
  proof cases
    case 1
    with assms(1) have "m = (''id'', VString i)" by (simp add: well_tagged_def)
    then show ?thesis
      by (simp add: store_def store_string_def foldName_tags)
  next
    case 2
    with assms(1) have "m = (''key'', VString k)" by (simp add: well_tagged_def)
    then show ?thesis
      by (simp add: store_def store_string_def foldName_tags)
  next
    case 3
    with assms(1) have "m = (''created'', VString c)" by (simp add: well_tagged_def)
    then show ?thesis
      by (simp add: store_def store_time_def foldName_tags assms(2))
  next
    case 4
    with assms(1) have "m = (''expires'', VString e)" by (simp add: well_tagged_def)
    then show ?thesis
      by (simp add: store_def store_time_def foldName_tags assms(3))
  next
    case 5
    with assms(1) have "m = (''ephemeral'', VBool b)" by (simp add: well_tagged_def)
    then show ?thesis
      by (simp add: store_def store_bool_def foldName_tags)
  next
    case 6
    then have "fst m \<noteq> ''id''" "fst m \<noteq> ''key''" "fst m \<noteq> ''created''" "fst m \<noteq> ''expires''"
      "fst m \<noteq> ''ephemeral''"
      using foldName_tags by auto
    then have "m \<noteq> (''id'', VString i)" "m \<noteq> (''key'', VString k)"
      "m \<noteq> (''created'', VString c)" "m \<noteq> (''expires'', VString e)"
      "m \<noteq> (''ephemeral'', VBool b)"
      by (cases m; simp)+
    with 6 show ?thesis
      by (simp add: store_def)
  qed
qed

lemma decode_members_fields:
  assumes "time_Parse w c = Some tc" and "time_Parse w e = Some te"
    and "\<forall>m\<in>set ms. well_tagged i k c e b m"
  shows "\<exists>r'. decode_members w r ms = Some r'
           \<and> ID r' = (if (''id'', VString i) \<in> set ms then i else ID r)
           \<and> Key r' = (if (''key'', VString k) \<in> set ms then k else Key r)
           \<and> Created r' = (if (''created'', VString c) \<in> set ms then tc else Created r)
           \<and> Expires r' = (if (''expires'', VString e) \<in> set ms then te else Expires r)
           \<and> Ephemeral r' = (if (''ephemeral'', VBool b) \<in> set ms then b else Ephemeral r)"
  using assms(3)
proof (induction ms arbitrary: r)
  case Nil
  then show ?case by simp
next
  case (Cons m ms)
  then have m: "well_tagged i k c e b m" and ms: "\<forall>m\<in>set ms. well_tagged i k c e b m"
    by simp_all
  note st = store_well_tagged [OF m assms(1,2)]
  let ?r1 = "if m = (''id'', VString i) then r\<lparr>ID := i\<rparr>
                 else if m = (''key'', VString k) then r\<lparr>Key := k\<rparr>
                 else if m = (''created'', VString c) then r\<lparr>Created := tc\<rparr>
                 else if m = (''expires'', VString e) then r\<lparr>Expires := te\<rparr>
                 else if m = (''ephemeral'', VBool b) then r\<lparr>Ephemeral := b\<rparr>
                 else r"
  from Cons.IH [OF ms, of ?r1] obtain r' where r': "decode_members w ?r1 ms = Some r'"
      "ID r' = (if (''id'', VString i) \<in> set ms then i else ID ?r1)"
      "Key r' = (if (''key'', VString k) \<in> set ms then k else Key ?r1)"
      "Created r' = (if (''created'', VString c) \<in> set ms then tc else Created ?r1)"
      "Expires r' = (if (''expires'', VString e) \<in> set ms then te else Expires ?r1)"
      "Ephemeral r' = (if (''ephemeral'', VBool b) \<in> set ms then b else Ephemeral ?r1)"
    by blast
  have "decode_members w r (m # ms) = Some r'"
    by (simp add: st r'(1))
  moreover have "ID r' = (if (''id'', VString i) \<in> set (m # ms) then i else ID r)"
    using r'(2) by auto
  moreover have "Key r' = (if (''key'', VString k) \<in> set (m # ms) then k else Key r)"
    using r'(3) by auto
  moreover have "Created r' = (if (''created'', VString c) \<in> set (m # ms) then tc else Created r)"
    using r'(4) by auto
  moreover have "Expires r' = (if (''expires'', VString e) \<in> set (m # ms) then te else Expires r)"
    using r'(5) by auto
  moreover have "Ephemeral r' = (if (''ephemeral'', VBool b) \<in> set (m # ms) then b else Ephemeral r)"
    using r'(6) by auto
  ultimately show ?case
    by blast
qed

lemma distinct_well_tagged:
  assumes "distinct (map (foldName \<circ> fst) ms)"
    and "(''id'', VString i) \<in> set ms" and "(''key'', VString k) \<in> set ms"
    and "(''created'', VString c) \<in> set ms" and "(''expires'', VString e) \<in> set ms"
    and "(''ephemeral'', VBool b) \<in> set ms"
  shows "\<forall>m\<in>set ms. well_tagged i k c e b m"
proof
  fix m assume m: "m \<in> set ms"
  from assms(1) have inj: "inj_on (foldName \<circ> fst) (set ms)"
    by (simp add: distinct_map)
  have same: "\<And>x. x \<in> set ms \<Longrightarrow> foldName (fst m) = foldName (fst x) \<Longrightarrow> m = x"
  proof -
    fix x assume "x \<in> set ms" and "foldName (fst m) = foldName (fst x)"
    then have "(foldName \<circ> fst) m = (foldName \<circ> fst) x" by simp
    from inj_onD [OF inj this m \<open>x \<in> set ms\<close>] show "m = x" .
  qed
  show "well_tagged i k c e b m"
    unfolding well_tagged_def
    using same [OF assms(2)] same [OF assms(3)] same [OF assms(4)] same [OF assms(5)]
      same [OF assms(6)]
    by (simp add: foldName_tags)
qed

lemma decode_object:
  assumes "distinct (map (foldName \<circ> fst) ms)"
    and "(''id'', VString i) \<in> set ms" and "(''key'', VString k) \<in> set ms"
    and "(''created'', VString c) \<in> set ms" and "(''expires'', VString e) \<in> set ms"
    and "(''ephemeral'', VBool b) \<in> set ms"
    and "time_Parse w c = Some tc" and "time_Parse w e = Some te"
  shows "decode_value w (VObject ms) =
           Some \<lparr>ID = i, Key = k, Created = tc, Expires = te, Ephemeral = b\<rparr>"
proof -
  from decode_members_fields [OF assms(7,8) distinct_well_tagged [OF assms(1-6)], of zero_key]
  obtain r' where "decode_members w zero_key ms = Some r'"
    "ID r' = i" "Key r' = k" "Created r' = tc" "Expires r' = te" "Ephemeral r' = b"
    using assms(2-6) by auto
  then show ?thesis
    by (cases r') (simp add: decode_value_def)
qed

subsection \<open>Runs of the provisioner\<close>

text \<open>Logging changes nothing but the log.\<close>

lemma Debug_wire [simp]: "wire (Debug fs msg s) = wire s"
  by (simp add: Debug_def logrus_log_def)

lemma Debug_token [simp]: "token (Debug fs msg s) = token s"
  by (simp add: Debug_def logrus_log_def)

lemma Debug_ticks [simp]: "ticks (Debug fs msg s) = ticks s"
  by (simp add: Debug_def logrus_log_def)

lemma new_wire_Debug [simp]: "new_wire s (Debug fs msg s') = new_wire s s'"
  by (simp add: new_wire_def)

lemma client_Do_wire:
  assumes "client_Do w c req s = (a, s')"
  shows "(\<exists>tok pre. wire s' = wire s @ pre @ [ApiRequest (Header_Set ''Authorization'' (''Bearer '' @ tok) req)]
            \<and> api_requests pre = [] \<and> a = api w (Header_Set ''Authorization'' (''Bearer '' @ tok) req))
       \<or> (\<exists>pre e. wire s' = wire s @ pre \<and> api_requests pre = [] \<and> a = Inl e)"
  using assms
  by (auto simp: client_Do_def Let_def split: option.splits sum.splits)

lemma client_Do_ticks:
  "client_Do w c req s = (a, s') \<Longrightarrow>
     ticks s' = ticks s \<and> logs s' = logs s \<and> logLevel s' = logLevel s"
  by (auto simp: client_Do_def Let_def split: option.splits sum.splits)

lemma api_requests_append [simp]: "api_requests (xs @ ys) = api_requests xs @ api_requests ys"
  by (induction xs rule: api_requests.induct) simp_all

lemma api_requests_mem: "ApiRequest q \<in> set evs \<longleftrightarrow> q \<in> set (api_requests evs)"
  by (induction evs rule: api_requests.induct) auto

lemma client_Do_sent:
  assumes "client_Do w c req s4 = (a, s5)" and "wire s4 = wire s"
    and "ApiRequest q \<in> set (new_wire s s5)"
  shows "a = api w q \<and> api_requests (new_wire s s5) = [q]
       \<and> (\<exists>tok. q = Header_Set ''Authorization'' (''Bearer '' @ tok) req)"
  using client_Do_wire [OF assms(1)] assms(2,3)
  by (auto simp: new_wire_def api_requests_mem)

lemma generateAuthKey_unfold:
  "generateAuthKey w c tailnet s =
     (case url_Parse w (endpoint_of tailnet) of
        Inl e \<Rightarrow> (Inl (RequestFailed e), before_send w tailnet s)
      | Inr u \<Rightarrow>
          (case client_Do w c (built_request w tailnet s) (before_send w tailnet s) of
             (a, s5) \<Rightarrow> finish w tailnet a s5))"
  by (simp add: generateAuthKey_def Let_def time_Now_def json_Marshal_def time_Add_def
      NewRequestWithContext_def endpoint_of_def built_request_def request_url_def Header_Set_def
      before_send_def finish_def Debug_def logrus_log_def
      split: sum.splits option.splits prod.splits)


lemma finish_fst: "fst (finish w tailnet a s5) = result_of w a"
  by (simp add: finish_def result_of_def split: sum.splits)

lemma finish_wire: "wire (snd (finish w tailnet a s5)) = wire s5"
  by (simp add: finish_def split: sum.splits)

lemma before_send_wire: "wire (before_send w tailnet s) = wire s"
  by (simp add: before_send_def)

lemma new_wire_finish: "new_wire s (snd (finish w tailnet a s5)) = new_wire s s5"
  by (simp add: new_wire_def finish_wire)

lemma generateAuthKey_sent:
  assumes "ApiRequest q \<in> set (new_wire s (snd (generateAuthKey w c tailnet s)))"
  shows "fst (generateAuthKey w c tailnet s) = result_of w (api w q)
       \<and> api_requests (new_wire s (snd (generateAuthKey w c tailnet s))) = [q]
       \<and> (\<exists>tok. q = Header_Set ''Authorization'' (''Bearer '' @ tok) (built_request w tailnet s))"
proof (cases "url_Parse w (endpoint_of tailnet)")
  case (Inl e)
  with assms show ?thesis
    by (simp add: generateAuthKey_unfold new_wire_def before_send_wire)
next
  case (Inr u)
  obtain a s5 where do: "client_Do w c (built_request w tailnet s) (before_send w tailnet s) = (a, s5)"
    by (cases "client_Do w c (built_request w tailnet s) (before_send w tailnet s)")
  have gen: "generateAuthKey w c tailnet s = finish w tailnet a s5"
    by (simp add: generateAuthKey_unfold Inr do)
  from assms have "ApiRequest q \<in> set (new_wire s s5)"
    by (simp add: gen new_wire_finish)
  from client_Do_sent [OF do before_send_wire this] show ?thesis
    by (simp add: gen finish_fst new_wire_finish)
qed

lemma test_client_Do:
  "token s = None \<Longrightarrow>
   client_Do (test_world drift answer) test_client req s =
     (answer, s\<lparr>wire := wire s @ [TokenRequest tailscaleAuthURL ''abc'' ''xyz'',
                                    ApiRequest (Header_Set ''Authorization'' ''Bearer tok'' req)],
                 token := Some ''tok''\<rparr>)"
  by (simp add: client_Do_def test_world_def test_client_def Let_def)

lemma before_send_token: "token (before_send w tailnet s) = token s"
  by (simp add: before_send_def)

lemma test_run:
  assumes "url_Parse (test_world drift answer) (endpoint_of tailnet) = Inr u"
  shows "generateAuthKey (test_world drift answer) test_client tailnet (test_state l) =
     finish (test_world drift answer) tailnet answer
       ((before_send (test_world drift answer) tailnet (test_state l))
          \<lparr>wire := [TokenRequest tailscaleAuthURL ''abc'' ''xyz'',
                    ApiRequest (Header_Set ''Authorization'' ''Bearer tok''
                      (built_request (test_world drift answer) tailnet (test_state l)))],
           token := Some ''tok''\<rparr>)"
proof -
  note u = assms
  have t: "token (before_send (test_world drift answer) tailnet (test_state l)) = None"
    by (simp add: before_send_token test_state_def)
  have w: "wire (before_send (test_world drift answer) tailnet (test_state l)) = []"
    by (simp add: before_send_wire test_state_def)
  show ?thesis
    by (simp add: generateAuthKey_unfold u test_client_Do [OF t] w)
qed


lemma test_run_new_wire:
  assumes "url_Parse (test_world drift answer) (endpoint_of tailnet) = Inr u"
  shows "new_wire (test_state l) (snd (generateAuthKey (test_world drift answer) test_client tailnet (test_state l))) =
     [TokenRequest tailscaleAuthURL ''abc'' ''xyz'',
      ApiRequest (Header_Set ''Authorization'' ''Bearer tok''
                    (built_request (test_world drift answer) tailnet (test_state l)))]"
  by (simp add: test_run [OF assms] new_wire_finish) (simp add: new_wire_def test_state_def)

lemma encode_AuthKeyRequest:
  \<open>encode (AuthKeyRequest n) =
     ''{"capabilities":{"devices":{"create":{"ephemeral":true,"preauthorized":true,"reusable":false,"tags":["tag:server"]}}},"expirySeconds":''
       @ show_int n @ ''}''\<close>
  by (simp add: AuthKeyRequest_def sort_fields_def json_string_def dq_def)

lemma built_request_Body:
  "Body (built_request w tailnet s) = encode (AuthKeyRequest (seconds_int (remaining w s)))"
  by (simp add: built_request_def reqBody_def AuthKeyRequest_def remaining_def time_Sub_def)

lemma digit_cases: "k < 10 \<Longrightarrow> k = 0 \<or> k = 1 \<or> k = 2 \<or> k = 3 \<or> k = 4 \<or> k = 5 \<or> k = 6 \<or> k = 7 \<or> k = 8 \<or> k = (9::nat)"
  by arith

lemma digit_val_digit_char: "k < 10 \<Longrightarrow> digit_val (digit_char k) = k"
  by (drule digit_cases) (auto simp: digit_val_def digit_char_def)

lemma digit_char_not_minus: "k < 10 \<Longrightarrow> digit_char k \<noteq> CHR ''-''"
  by (drule digit_cases) (auto simp: digit_char_def)

lemma digits_val_snoc: "digits_val (cs @ [c]) = 10 * digits_val cs + digit_val c"
  by (simp add: digits_val_def)

lemma digits_val_digits: "digits_val (digits n) = n"
proof (induction n rule: digits.induct)
  case (1 n)
  show ?case
  proof (cases "n < 10")
    case True
    then show ?thesis
      by (subst digits.simps) (simp add: digits_val_def digit_val_digit_char)
  next
    case False
    with 1 show ?thesis
      by (subst digits.simps) (simp add: digits_val_snoc digit_val_digit_char)
  qed
qed

lemma digits_hd: "\<exists>k cs. k < 10 \<and> digits n = digit_char k # cs"
proof (induction n rule: digits.induct)
  case (1 n)
  show ?case
  proof (cases "n < 10")
    case True
    then show ?thesis
      by (subst digits.simps) auto
  next
    case False
    with 1 obtain k cs where "k < 10" "digits (n div 10) = digit_char k # cs"
      by auto
    with False show ?thesis
      by (subst digits.simps) auto
  qed
qed

lemma show_int_inj: "show_int a = show_int b \<Longrightarrow> a = b"
proof -
  assume eq: "show_int a = show_int b"
  have neg: "\<And>m n. CHR ''-'' # digits m \<noteq> digits n"
    using digits_hd digit_char_not_minus by (metis list.inject)
  have inj: "\<And>m n. digits m = digits n \<Longrightarrow> m = n"
    by (metis digits_val_digits)
  show ?thesis
  proof (cases "a < 0")
    case True
    show ?thesis
    proof (cases "b < 0")
      case True
      with \<open>a < 0\<close> eq have "nat (- a) = nat (- b)"
        by (simp add: show_int_def inj)
      with True \<open>a < 0\<close> show ?thesis by simp
    next
      case False
      with \<open>a < 0\<close> eq neg show ?thesis
        by (simp add: show_int_def)
    qed
  next
    case False
    show ?thesis
    proof (cases "b < 0")
      case True
      with False eq neg [of "nat (- b)" "nat a"] show ?thesis
        by (simp add: show_int_def)
    next
      case bf: False
      with False eq have "nat a = nat b"
        by (simp add: show_int_def inj)
      with False bf show ?thesis by simp
    qed
  qed
qed

lemma encode_AuthKeyRequest_inj: "encode (AuthKeyRequest m) = encode (AuthKeyRequest n) \<Longrightarrow> m = n"
  by (simp add: encode_AuthKeyRequest show_int_inj)

lemma seconds_int_near: "\<bar>seconds_int d * Second - d\<bar> < Second"
proof (cases "d < 0")
  case True
  have e: "(- d) div Second * Second = - d - (- d) mod Second"
    by (simp add: minus_mod_eq_div_mult)
  have r: "0 \<le> (- d) mod Second" "(- d) mod Second < Second"
    by (simp_all add: Second_def)
  have "seconds_int d * Second - d = (- d) mod Second"
    using True by (simp add: seconds_int_def e)
  with r show ?thesis
    by simp
next
  case False
  have e: "d div Second * Second = d - d mod Second"
    by (simp add: minus_mod_eq_div_mult)
  have r: "0 \<le> d mod Second" "d mod Second < Second"
    by (simp_all add: Second_def)
  have "seconds_int d * Second - d = - (d mod Second)"
    using False by (simp add: seconds_int_def e)
  with r show ?thesis
    by simp
qed

lemma seconds_int_pos: "0 < seconds_int d \<longleftrightarrow> Second \<le> d"
  by (auto simp: seconds_int_def Second_def pos_imp_zdiv_pos_iff)


lemma before_send_ticks: "ticks (before_send w tailnet s) = Suc (Suc (ticks s))"
  by (simp add: before_send_def)

lemma finish_ticks: "ticks (snd (finish w tailnet a s5)) = ticks s5"
  by (simp add: finish_def split: sum.splits)

lemma generateAuthKey_ticks: "ticks (snd (generateAuthKey w c tailnet s)) = Suc (Suc (ticks s))"
proof (cases "url_Parse w (endpoint_of tailnet)")
  case (Inl e)
  then show ?thesis
    by (simp add: generateAuthKey_unfold before_send_ticks)
next
  case (Inr u)
  obtain a s5 where do: "client_Do w c (built_request w tailnet s) (before_send w tailnet s) = (a, s5)"
    by (cases "client_Do w c (built_request w tailnet s) (before_send w tailnet s)")
  from client_Do_ticks [OF do] show ?thesis
    by (simp add: generateAuthKey_unfold Inr do finish_ticks before_send_ticks)
qed

lemma sent_Body:
  assumes "ApiRequest q \<in> set (new_wire s (snd (generateAuthKey w c tailnet s)))"
  shows "Body q = encode (AuthKeyRequest (seconds_int (remaining w s)))"
  using generateAuthKey_sent [OF assms]
  by (auto simp: Header_Set_def built_request_Body)

lemma test_remaining: "remaining (test_world drift answer) (test_state l) = 1209600 * Second - drift"
  by (simp add: remaining_def test_world_def test_state_def authKeyExpiryDays_def Hour_def)

lemma test_run_bodies:
  assumes "url_Parse (test_world drift answer) (endpoint_of tailnet) = Inr u"
  shows "map Body (api_requests (new_wire (test_state l)
       (snd (generateAuthKey (test_world drift answer) test_client tailnet (test_state l))))) =
     [encode (AuthKeyRequest (seconds_int (1209600 * Second - drift)))]"
  by (simp add: test_run_new_wire [OF assms] Header_Set_def built_request_Body test_remaining)

lemma Debug_logs_ext: "\<exists>ls. logs (Debug fs msg s) = logs s @ ls \<and> list_all is_debug_entry ls
    \<and> (level_num (logLevel s) < level_num DebugLevel \<longrightarrow> ls = [])"
  by (simp add: Debug_def logrus_log_def is_debug_entry_def)

lemma Debug_logLevel [simp]: "logLevel (Debug fs msg s) = logLevel s"
  by (simp add: Debug_def logrus_log_def)

lemma Debug_environ [simp]: "environ (Debug fs msg s) = environ s"
  by (simp add: Debug_def logrus_log_def)

lemma before_send_logs: "\<exists>ls. logs (before_send w tailnet s) = logs s @ ls \<and> list_all is_debug_entry ls
    \<and> (level_num (logLevel s) < level_num DebugLevel \<longrightarrow> ls = [])"
  by (simp add: before_send_def Debug_def logrus_log_def is_debug_entry_def)

lemma before_send_logLevel: "logLevel (before_send w tailnet s) = logLevel s"
  by (simp add: before_send_def)

lemma finish_logs: "\<exists>ls. logs (snd (finish w tailnet a s5)) = logs s5 @ ls \<and> list_all is_debug_entry ls
    \<and> (level_num (logLevel s5) < level_num DebugLevel \<longrightarrow> ls = [])"
  by (simp add: finish_def Debug_def logrus_log_def is_debug_entry_def split: sum.splits)

lemma generateAuthKey_logs:
  "\<exists>ls. logs (snd (generateAuthKey w c tailnet s)) = logs s @ ls \<and> list_all is_debug_entry ls
    \<and> (level_num (logLevel s) < level_num DebugLevel \<longrightarrow> ls = [])"
proof -
  obtain l1 where l1: "logs (before_send w tailnet s) = logs s @ l1" "list_all is_debug_entry l1"
      "level_num (logLevel s) < level_num DebugLevel \<longrightarrow> l1 = []"
    using before_send_logs by blast
  show ?thesis
  proof (cases "url_Parse w (endpoint_of tailnet)")
    case (Inl e)
    with l1 show ?thesis
      by (simp add: generateAuthKey_unfold)
  next
    case (Inr u)
    obtain a s5 where do: "client_Do w c (built_request w tailnet s) (before_send w tailnet s) = (a, s5)"
      by (cases "client_Do w c (built_request w tailnet s) (before_send w tailnet s)")
    from client_Do_ticks [OF do]
    have s5: "logs s5 = logs (before_send w tailnet s)" "logLevel s5 = logLevel s"
      by (simp_all add: before_send_logLevel)
    obtain l2 where l2: "logs (snd (finish w tailnet a s5)) = logs s5 @ l2" "list_all is_debug_entry l2"
      "level_num (logLevel s5) < level_num DebugLevel \<longrightarrow> l2 = []"
      using finish_logs by blast
    have "logs (snd (generateAuthKey w c tailnet s)) = logs s @ (l1 @ l2)"
      by (simp add: generateAuthKey_unfold Inr do l2 s5 l1)
    moreover have "list_all is_debug_entry (l1 @ l2)"
      using l1 l2 by simp
    moreover have "level_num (logLevel s) < level_num DebugLevel \<longrightarrow> l1 @ l2 = []"
      using l1 l2 s5 by simp
    ultimately show ?thesis
      by blast
  qed
qed

lemma godotenv_Load_keeps:
  "godotenv_Load file s = (err, s') \<Longrightarrow>
     wire s' = wire s \<and> token s' = token s \<and> logs s' = logs s \<and> logLevel s' = logLevel s \<and> ticks s' = ticks s"
  by (auto simp: godotenv_Load_def split: sum.splits)

lemma GetAccessToken_logs:
  "logs (snd (GetAccessToken w s)) =
     logs s @ (case dotenv w of
                 Inl e \<Rightarrow> [StdLog ''No .env file found, using system environment variables.'']
               | Inr kvs \<Rightarrow> [])"
  by (simp add: GetAccessToken_def godotenv_Load_def Println_def Let_def split: sum.splits)

lemma setupLogging_keeps:
  "wire (setupLogging l s) = wire s \<and> token (setupLogging l s) = token s
   \<and> logs (setupLogging l s) = logs s
   \<and> level_num FatalLevel \<le> level_num (logLevel (setupLogging l s))"
  by (simp add: setupLogging_def Let_def)

lemma loadEnvConfig_keeps:
  "wire (snd (loadEnvConfig w s)) = wire s \<and> token (snd (loadEnvConfig w s)) = token s
   \<and> logs (snd (loadEnvConfig w s)) = logs s \<and> logLevel (snd (loadEnvConfig w s)) = logLevel s"
  by (simp add: loadEnvConfig_def godotenv_Load_def Let_def split: option.splits sum.splits)

lemma Getenv_Debug [simp]: "Getenv k (Debug fs msg s) = Getenv k s"
  by (simp add: Getenv_def)

lemma client_Do_cached:
  "token s = Some tok \<Longrightarrow>
   client_Do w c req s =
     (api w (Header_Set ''Authorization'' (''Bearer '' @ tok) req),
      s\<lparr>wire := wire s @ [ApiRequest (Header_Set ''Authorization'' (''Bearer '' @ tok) req)]\<rparr>)"
  by (simp add: client_Do_def Let_def)

lemma main_provision_empty_tailnet:
  assumes "Getenv ''TS_TAILNET'' (snd (loadEnvConfig w (setupLogging (LogLevel cfg) s))) = []"
  shows "main_provision w cfg s =
           Fatal ''TS_TAILNET environment variable is required''
             (case fst (loadEnvConfig w (setupLogging (LogLevel cfg) s)) of
                Some e \<Rightarrow> Debug [] e (snd (loadEnvConfig w (setupLogging (LogLevel cfg) s)))
              | None \<Rightarrow> snd (loadEnvConfig w (setupLogging (LogLevel cfg) s)))"
  using assms
  by (cases "loadEnvConfig w (setupLogging (LogLevel cfg) s)")
     (simp add: main_provision_def Let_def split: option.splits)

subsection \<open>The scenarios\<close>

lemma generateAuthKey_sent_url:
  assumes "ApiRequest q \<in> set (new_wire s (snd (generateAuthKey w c tailnet s)))"
  shows "url_Parse w (endpoint_of tailnet) = Inr (URL q)"
proof (cases "url_Parse w (endpoint_of tailnet)")
  case (Inl e)
  with assms show ?thesis
    by (simp add: generateAuthKey_unfold new_wire_def before_send_wire)
next
  case (Inr u)
  from generateAuthKey_sent [OF assms] obtain tok
    where "q = Header_Set ''Authorization'' (''Bearer '' @ tok) (built_request w tailnet s)"
    by blast
  then have "URL q = request_url w tailnet"
    by (simp add: Header_Set_def built_request_def)
  with Inr show ?thesis
    by (simp add: request_url_def)
qed

lemma example_url: "url_Parse w (endpoint_of ''example'') = Inr (endpoint_of ''example'')"
  by (rule plain_url_Parse [OF plain_example])

lemma empty_url: "url_Parse w (endpoint_of []) = Inr (endpoint_of [])"
  by (rule plain_url_Parse [OF plain_empty])

text \<open>The success body of the scenario, as the decoder reads it.\<close>

lemma scenario_scan:
  "scan_json scenario_body =
     Ok (VObject [(''id'', VString ''k1''), (''key'', VString ''tskey-abc123''),
                  (''created'', VString ''2024-01-01T00:00:00Z''),
                  (''expires'', VString ''2024-01-15T00:00:00Z''),
                  (''ephemeral'', VBool True)]) []"
  by code_simp

lemma scenario_created:
  "time_Parse w ''2024-01-01T00:00:00Z'' = Some \<lparr>wall = 1704067200 * Second, mono = None\<rparr>"
proof -
  have "parseRFC3339 ''2024-01-01T00:00:00Z'' = Some \<lparr>wall = 1704067200 * Second, mono = None\<rparr>"
    by code_simp
  then show ?thesis
    by (simp add: time_Parse_def)
qed

lemma scenario_expires:
  "time_Parse w ''2024-01-15T00:00:00Z'' = Some \<lparr>wall = 1705276800 * Second, mono = None\<rparr>"
proof -
  have "parseRFC3339 ''2024-01-15T00:00:00Z'' = Some \<lparr>wall = 1705276800 * Second, mono = None\<rparr>"
    by code_simp
  then show ?thesis
    by (simp add: time_Parse_def)
qed

lemma scenario_distinct:
  "distinct (map (foldName \<circ> fst)
     [(''id'', VString ''k1''), (''key'', VString ''tskey-abc123''),
      (''created'', VString ''2024-01-01T00:00:00Z''),
      (''expires'', VString ''2024-01-15T00:00:00Z''),
      (''ephemeral'', VBool True)])"
  by (simp add: foldName_tags)

lemma scenario_decodes: "json_Unmarshal w scenario_body = Inr scenario_key"
proof -
  have "decode_value w (VObject [(''id'', VString ''k1''), (''key'', VString ''tskey-abc123''),
                  (''created'', VString ''2024-01-01T00:00:00Z''),
                  (''expires'', VString ''2024-01-15T00:00:00Z''),
                  (''ephemeral'', VBool True)]) = Some scenario_key"
    unfolding scenario_key_def
    by (rule decode_object [OF scenario_distinct _ _ _ _ _ scenario_created scenario_expires])
       simp_all
  then show ?thesis
    by (simp add: json_Unmarshal_def scenario_scan)
qed

lemma garbled_scan: "scan_json ''<html>Bad Gateway</html>'' = Bad"
  by code_simp

lemma cut_scan: "scan_json (take 20 scenario_body) = Bad"
  by code_simp

lemma div_eq_bounds:
  fixes d c n :: int
  assumes "0 < c"
  shows "d div c = n \<longleftrightarrow> n * c \<le> d \<and> d < (n + 1) * c"
proof
  assume e: "d div c = n"
  have "d = d div c * c + d mod c"
    by simp
  moreover have "0 \<le> d mod c" "d mod c < c"
    using assms by simp_all
  ultimately show "n * c \<le> d \<and> d < (n + 1) * c"
    unfolding e by (simp add: algebra_simps)
next
  assume b: "n * c \<le> d \<and> d < (n + 1) * c"
  have "d = c * n + (d - c * n)"
    by simp
  moreover have "0 \<le> d - c * n" "d - c * n < c"
    using b by (simp_all add: algebra_simps)
  ultimately show "d div c = n"
    by (rule int_div_pos_eq)
qed

lemma seconds_int_eq: "seconds_int d = 1209600 \<longleftrightarrow> 1209600 * Second \<le> d \<and> d < 1209601 * Second"
proof (cases "d < 0")
  case True
  have "0 \<le> (- d) div Second"
    using True by (simp add: Second_def pos_imp_zdiv_nonneg_iff)
  with True show ?thesis
    by (simp add: seconds_int_def Second_def)
next
  case False
  have "0 < Second"
    by (simp add: Second_def)
  from div_eq_bounds [OF this, of d 1209600] False show ?thesis
    by (simp add: seconds_int_def)
qed

lemma request_url_plain: "plain_path tailnet \<Longrightarrow> request_url w tailnet = endpoint_of tailnet"
  by (simp add: request_url_def plain_url_Parse)

lemma request_url_spaced:
  "request_url w ''a b'' = ''https://api.tailscale.com/api/v2/tailnet/a%20b/keys''"
  by (simp add: request_url_def spaced_url_Parse)

section \<open>Claims\<close>

text \<open>
  C1. Whenever the key-creation request that \<open>generateAuthKey\<close> sent is answered with a
  status other than 200, the call returns no record but the error of line 158, which carries
  the exact status code and the raw response body (also in its message), and the call put
  exactly one API request on the wire: the request is not retried.
\<close>

theorem C1_non200_provisioning_error:
  assumes "ApiRequest q \<in> set (new_wire s (snd (generateAuthKey w client tailnet s)))"
    and "api w q = Inr resp"
    and "StatusCode resp \<noteq> 200"
  shows "fst (generateAuthKey w client tailnet s) =
           Inl (ProvisioningError (StatusCode resp) (fst (BodyRead resp)))
       \<and> Error (ProvisioningError (StatusCode resp) (fst (BodyRead resp))) =
           ''failed to generate auth key: HTTP '' @ show_int (StatusCode resp) @ '' - '' @ fst (BodyRead resp)
       \<and> api_requests (new_wire s (snd (generateAuthKey w client tailnet s))) = [q]"
  using generateAuthKey_sent [OF assms(1)] assms(2,3)
  by (simp add: result_of_def)

theorem C1_witness:
  \<open>ApiRequest (Header_Set ''Authorization'' ''Bearer tok''
       (built_request (test_world 1 (Inr forbidden)) ''example'' (test_state ErrorLevel)))
     \<in> set (new_wire (test_state ErrorLevel)
          (snd (generateAuthKey (test_world 1 (Inr forbidden)) test_client ''example'' (test_state ErrorLevel))))
   \<and> api (test_world 1 (Inr forbidden))
        (Header_Set ''Authorization'' ''Bearer tok''
          (built_request (test_world 1 (Inr forbidden)) ''example'' (test_state ErrorLevel))) = Inr forbidden
   \<and> StatusCode forbidden \<noteq> 200
   \<and> fst (generateAuthKey (test_world 1 (Inr forbidden)) test_client ''example'' (test_state ErrorLevel)) =
       Inl (ProvisioningError 403 ''{"message":"invalid tags"}'')
   \<and> Error (ProvisioningError 403 ''{"message":"invalid tags"}'') =
       ''failed to generate auth key: HTTP 403 - {"message":"invalid tags"}''
   \<and> api_requests (new_wire (test_state ErrorLevel)
          (snd (generateAuthKey (test_world 1 (Inr forbidden)) test_client ''example'' (test_state ErrorLevel)))) =
       [Header_Set ''Authorization'' ''Bearer tok''
          (built_request (test_world 1 (Inr forbidden)) ''example'' (test_state ErrorLevel))]\<close>
proof -
  let ?w = "test_world 1 (Inr forbidden)"
  let ?s = "test_state ErrorLevel"
  let ?q = "Header_Set ''Authorization'' ''Bearer tok'' (built_request ?w ''example'' ?s)"
  have h1: "ApiRequest ?q \<in> set (new_wire ?s (snd (generateAuthKey ?w test_client ''example'' ?s)))"
    by (simp add: test_run_new_wire [OF example_url])
  have h2: "api ?w ?q = Inr forbidden"
    by (simp add: test_world_def)
  have h3: "StatusCode forbidden \<noteq> 200"
    by (simp add: forbidden_def)
  have sh: "show_int 403 = ''403''"
    by (simp add: show_int_def digits.simps digit_char_def)
  from C1_non200_provisioning_error [OF h1 h2 h3] h1 h2 h3 sh show ?thesis
    by (simp add: forbidden_def)
qed



text \<open>
  C5. Whenever the key-creation request is answered with status 200 and a body on which
  \<open>json.Unmarshal\<close> fails, the call returns the decoding error of line 163, which wraps the
  parse error, and no record at all.
\<close>

theorem C5_undecodable_body_fails:
  assumes "ApiRequest q \<in> set (new_wire s (snd (generateAuthKey w client tailnet s)))"
    and "api w q = Inr resp"
    and "StatusCode resp = 200"
    and "json_Unmarshal w (fst (BodyRead resp)) = Inl e"
  shows "fst (generateAuthKey w client tailnet s) = Inl (DecodeError e)
       \<and> Error (DecodeError e) = ''failed to decode auth key response: '' @ e"
  using generateAuthKey_sent [OF assms(1)] assms(2-4)
  by (simp add: result_of_def)

theorem C5_witness:
  "ApiRequest (Header_Set ''Authorization'' ''Bearer tok''
       (built_request (test_world 1 (Inr garbled_response)) ''example'' (test_state ErrorLevel)))
     \<in> set (new_wire (test_state ErrorLevel)
          (snd (generateAuthKey (test_world 1 (Inr garbled_response)) test_client ''example'' (test_state ErrorLevel))))
   \<and> api (test_world 1 (Inr garbled_response))
        (Header_Set ''Authorization'' ''Bearer tok''
          (built_request (test_world 1 (Inr garbled_response)) ''example'' (test_state ErrorLevel))) = Inr garbled_response
   \<and> StatusCode garbled_response = 200
   \<and> json_Unmarshal (test_world 1 (Inr garbled_response)) (fst (BodyRead garbled_response)) =
       Inl ''invalid character '<' looking for beginning of value''
   \<and> fst (generateAuthKey (test_world 1 (Inr garbled_response)) test_client ''example'' (test_state ErrorLevel)) =
       Inl (DecodeError ''invalid character '<' looking for beginning of value'')
   \<and> Error (DecodeError ''invalid character '<' looking for beginning of value'') =
       ''failed to decode auth key response: invalid character '<' looking for beginning of value''"
proof -
  let ?w = "test_world 1 (Inr garbled_response)"
  let ?s = "test_state ErrorLevel"
  let ?q = "Header_Set ''Authorization'' ''Bearer tok'' (built_request ?w ''example'' ?s)"
  have h1: "ApiRequest ?q \<in> set (new_wire ?s (snd (generateAuthKey ?w test_client ''example'' ?s)))"
    by (simp add: test_run_new_wire [OF example_url])
  have h2: "api ?w ?q = Inr garbled_response"
    by (simp add: test_world_def)
  have h3: "StatusCode garbled_response = 200"
    by (simp add: garbled_response_def)
  have h4: "json_Unmarshal ?w (fst (BodyRead garbled_response)) =
      Inl ''invalid character '<' looking for beginning of value''"
    by (simp add: json_Unmarshal_def garbled_response_def garbled_scan)
       (simp add: test_world_def scenario_body_def)
  from C5_undecodable_body_fails [OF h1 h2 h3 h4] h1 h2 h3 h4 show ?thesis
    by simp
qed

text \<open>
  C10. Whenever the key-creation request is answered with status 200 and reading the body
  failed, the read error is discarded: the result is what decoding the bytes read so far
  gives, a decoding error or (if they parse) a record, and never the transport error of
  line 147.
\<close>

theorem C10_body_read_error_discarded:
  assumes "ApiRequest q \<in> set (new_wire s (snd (generateAuthKey w client tailnet s)))"
    and "api w q = Inr resp"
    and "StatusCode resp = 200"
    and "snd (BodyRead resp) = Some read_err"
  shows "fst (generateAuthKey w client tailnet s) =
           (case json_Unmarshal w (fst (BodyRead resp)) of
              Inl e \<Rightarrow> Inl (DecodeError e)
            | Inr k \<Rightarrow> Inr k)
       \<and> (\<forall>e. fst (generateAuthKey w client tailnet s) \<noteq> Inl (NetworkError e))"
  using generateAuthKey_sent [OF assms(1)] assms(2,3)
  by (simp add: result_of_def split: sum.splits)

theorem C10_witness:
  "ApiRequest (Header_Set ''Authorization'' ''Bearer tok''
       (built_request (test_world 1 (Inr cut_response)) ''example'' (test_state ErrorLevel)))
     \<in> set (new_wire (test_state ErrorLevel)
          (snd (generateAuthKey (test_world 1 (Inr cut_response)) test_client ''example'' (test_state ErrorLevel))))
   \<and> api (test_world 1 (Inr cut_response))
        (Header_Set ''Authorization'' ''Bearer tok''
          (built_request (test_world 1 (Inr cut_response)) ''example'' (test_state ErrorLevel))) = Inr cut_response
   \<and> StatusCode cut_response = 200
   \<and> snd (BodyRead cut_response) = Some ''unexpected EOF''
   \<and> fst (generateAuthKey (test_world 1 (Inr cut_response)) test_client ''example'' (test_state ErrorLevel)) =
       Inl (DecodeError ''unexpected end of JSON input'')"
proof -
  let ?w = "test_world 1 (Inr cut_response)"
  let ?s = "test_state ErrorLevel"
  let ?q = "Header_Set ''Authorization'' ''Bearer tok'' (built_request ?w ''example'' ?s)"
  have h1: "ApiRequest ?q \<in> set (new_wire ?s (snd (generateAuthKey ?w test_client ''example'' ?s)))"
    by (simp add: test_run_new_wire [OF example_url])
  have h2: "api ?w ?q = Inr cut_response"
    by (simp add: test_world_def)
  have h3: "StatusCode cut_response = 200"
    by (simp add: cut_response_def)
  have h4: "snd (BodyRead cut_response) = Some ''unexpected EOF''"
    by (simp add: cut_response_def)
  have d: "json_Unmarshal ?w (fst (BodyRead cut_response)) = Inl ''unexpected end of JSON input''"
    by (simp add: json_Unmarshal_def cut_response_def cut_scan)
       (simp add: test_world_def)
  from C10_body_read_error_discarded [OF h1 h2 h3 h4] h1 h2 h3 h4 d show ?thesis
    by simp
qed

text \<open>
  C3, as stated, fails: the URL of the request is the one that \<open>url.Parse\<close> makes of the
  formatted endpoint, and that is not the endpoint for every tailnet. For the tailnet \<open>a b\<close>
  the request goes to \<open>https://api.tailscale.com/api/v2/tailnet/a%20b/keys\<close>, while
  \<open>{apiBase}/tailnet/{tailnet}/keys\<close> is \<open>https://api.tailscale.com/api/v2/tailnet/a b/keys\<close>.
\<close>

theorem C3_counterexample:
  "map (\<lambda>q. (Method q, URL q))
     (api_requests (new_wire (test_state ErrorLevel)
        (snd (generateAuthKey (test_world 1 (Inr ok_response)) test_client ''a b'' (test_state ErrorLevel))))) =
     [(''POST'', ''https://api.tailscale.com/api/v2/tailnet/a%20b/keys'')]
   \<and> tailscaleAPIBase @ ''/tailnet/'' @ ''a b'' @ ''/keys'' =
       ''https://api.tailscale.com/api/v2/tailnet/a b/keys''
   \<and> ''https://api.tailscale.com/api/v2/tailnet/a%20b/keys'' \<noteq>
       ''https://api.tailscale.com/api/v2/tailnet/a b/keys''"
proof -
  note u = spaced_url_Parse [of "test_world 1 (Inr ok_response)"]
  have "map (\<lambda>q. (Method q, URL q))
     (api_requests (new_wire (test_state ErrorLevel)
        (snd (generateAuthKey (test_world 1 (Inr ok_response)) test_client ''a b'' (test_state ErrorLevel))))) =
     [(''POST'', ''https://api.tailscale.com/api/v2/tailnet/a%20b/keys'')]"
    by (simp add: test_run_new_wire [OF u])
       (simp add: Header_Set_def built_request_def request_url_spaced)
  then show ?thesis
    by (simp add: tailscaleAPIBase_def)
qed

text \<open>
  C3, amended. For every tailnet string, a request that \<open>generateAuthKey\<close> puts on the wire
  is a POST with the header \<open>Content-Type: application/json\<close>, and its body is the JSON
  document of section 6 of the specification: the capability descriptor has \<open>reusable\<close>
  false, \<open>ephemeral\<close> true, \<open>preauthorized\<close> true and the single tag \<open>tag:server\<close>. Its URL
  is what \<open>url.Parse\<close> makes of \<open>{apiBase}/tailnet/{tailnet}/keys\<close>; it is that very text
  when the tailnet consists of bytes that a URL path keeps as they are: letters, digits and
  \<open>- _ . ~ $ & + , / : ; = @\<close>.
\<close>

theorem C3_request_shape:
  assumes "ApiRequest q \<in> set (new_wire s (snd (generateAuthKey w client tailnet s)))"
  shows \<open>Method q = ''POST''
       \<and> url_Parse w (tailscaleAPIBase @ ''/tailnet/'' @ tailnet @ ''/keys'') = Inr (URL q)
       \<and> (plain_path tailnet \<longrightarrow> URL q = tailscaleAPIBase @ ''/tailnet/'' @ tailnet @ ''/keys'')
       \<and> map_of (Header q) ''Content-Type'' = Some ''application/json''
       \<and> (\<exists>n. Body q = encode (AuthKeyRequest n)
              \<and> Body q = ''{"capabilities":{"devices":{"create":{"ephemeral":true,"preauthorized":true,"reusable":false,"tags":["tag:server"]}}},"expirySeconds":''
                           @ show_int n @ ''}'')\<close>
proof -
  from generateAuthKey_sent [OF assms] obtain tok
    where q: "q = Header_Set ''Authorization'' (''Bearer '' @ tok) (built_request w tailnet s)"
    by blast
  have u: "url_Parse w (tailscaleAPIBase @ ''/tailnet/'' @ tailnet @ ''/keys'') = Inr (URL q)"
    using generateAuthKey_sent_url [OF assms] by (simp add: endpoint_of_def)
  have "Method q = ''POST''"
    by (simp add: q Header_Set_def built_request_def)
  moreover have "plain_path tailnet \<longrightarrow> URL q = tailscaleAPIBase @ ''/tailnet/'' @ tailnet @ ''/keys''"
    using u plain_url_Parse [of tailnet w] by (auto simp: endpoint_of_def)
  moreover have "map_of (Header q) ''Content-Type'' = Some ''application/json''"
    by (simp add: q Header_Set_def built_request_def)
  moreover have "Body q = encode (AuthKeyRequest (seconds_int (remaining w s)))"
    by (rule sent_Body [OF assms])
  ultimately show ?thesis
    using u encode_AuthKeyRequest by metis
qed

theorem C3_witness:
  \<open>ApiRequest (Header_Set ''Authorization'' ''Bearer tok''
       (built_request (test_world 1 (Inr ok_response)) ''example'' (test_state ErrorLevel)))
     \<in> set (new_wire (test_state ErrorLevel)
          (snd (generateAuthKey (test_world 1 (Inr ok_response)) test_client ''example'' (test_state ErrorLevel))))
   \<and> plain_path ''example''
   \<and> Method (Header_Set ''Authorization'' ''Bearer tok''
       (built_request (test_world 1 (Inr ok_response)) ''example'' (test_state ErrorLevel))) = ''POST''
   \<and> URL (Header_Set ''Authorization'' ''Bearer tok''
       (built_request (test_world 1 (Inr ok_response)) ''example'' (test_state ErrorLevel))) =
       ''https://api.tailscale.com/api/v2/tailnet/example/keys''
   \<and> map_of (Header (Header_Set ''Authorization'' ''Bearer tok''
       (built_request (test_world 1 (Inr ok_response)) ''example'' (test_state ErrorLevel)))) ''Content-Type'' =
       Some ''application/json''
   \<and> Body (Header_Set ''Authorization'' ''Bearer tok''
       (built_request (test_world 1 (Inr ok_response)) ''example'' (test_state ErrorLevel))) =
       ''{"capabilities":{"devices":{"create":{"ephemeral":true,"preauthorized":true,"reusable":false,"tags":["tag:server"]}}},"expirySeconds":1209599}''\<close>
proof -
  let ?w = "test_world 1 (Inr ok_response)"
  let ?s = "test_state ErrorLevel"
  let ?q = "Header_Set ''Authorization'' ''Bearer tok'' (built_request ?w ''example'' ?s)"
  have h1: "ApiRequest ?q \<in> set (new_wire ?s (snd (generateAuthKey ?w test_client ''example'' ?s)))"
    by (simp add: test_run_new_wire [OF example_url])
  have h2: "plain_path ''example''"
    by (rule plain_example)
  have b: "Body ?q = encode (AuthKeyRequest 1209599)"
    by (simp add: Header_Set_def built_request_Body test_remaining) (simp add: seconds_int_def Second_def)
  have sh: "show_int 1209599 = ''1209599''"
    by (simp add: show_int_def digits.simps digit_char_def)
  from C3_request_shape [OF h1] h1 h2 show ?thesis
    by (simp add: tailscaleAPIBase_def b encode_AuthKeyRequest sh)
qed

text \<open>
  C4, as stated, fails: when the second reading of the clock is 14 days after the first, the
  body carries \<open>expirySeconds\<close> 0, which is not strictly positive.
\<close>

theorem C4_counterexample:
  \<open>map Body (api_requests (new_wire (test_state ErrorLevel)
       (snd (generateAuthKey (test_world (1209600 * Second) (Inr ok_response)) test_client ''example''
              (test_state ErrorLevel))))) =
     [''{"capabilities":{"devices":{"create":{"ephemeral":true,"preauthorized":true,"reusable":false,"tags":["tag:server"]}}},"expirySeconds":0}'']\<close>
proof -
  have sh: "show_int 0 = ''0''"
    by (simp add: show_int_def digits.simps digit_char_def)
  show ?thesis
    by (simp add: test_run_bodies [OF example_url] seconds_int_def encode_AuthKeyRequest sh)
qed

text \<open>
  C4, amended. In every request body that \<open>generateAuthKey\<close> sends, \<open>expirySeconds\<close> is
  within one second of the time from the second clock reading (taken when the body is built)
  to the expiry instant (the first reading plus 14 days); it is strictly positive exactly
  when that time is at least one second, that is, when the second reading is at most 14 days
  less one second after the first.
\<close>

theorem C4_expirySeconds_of_second_reading:
  assumes "ApiRequest q \<in> set (new_wire s (snd (generateAuthKey w client tailnet s)))"
  shows "\<exists>n. Body q = encode (AuthKeyRequest n)
           \<and> \<bar>n * Second - remaining w s\<bar> < Second
           \<and> (0 < n \<longleftrightarrow> Second \<le> remaining w s)"
  using sent_Body [OF assms] seconds_int_near [of "remaining w s"] seconds_int_pos [of "remaining w s"]
  by blast

theorem C4_witness:
  "ApiRequest (Header_Set ''Authorization'' ''Bearer tok''
       (built_request (test_world 1000 (Inr ok_response)) ''example'' (test_state ErrorLevel)))
     \<in> set (new_wire (test_state ErrorLevel)
          (snd (generateAuthKey (test_world 1000 (Inr ok_response)) test_client ''example'' (test_state ErrorLevel))))
   \<and> Second \<le> remaining (test_world 1000 (Inr ok_response)) (test_state ErrorLevel)
   \<and> (\<exists>n. Body (Header_Set ''Authorization'' ''Bearer tok''
               (built_request (test_world 1000 (Inr ok_response)) ''example'' (test_state ErrorLevel))) =
             encode (AuthKeyRequest n)
          \<and> \<bar>n * Second - remaining (test_world 1000 (Inr ok_response)) (test_state ErrorLevel)\<bar> < Second
          \<and> 0 < n)"
proof -
  let ?w = "test_world 1000 (Inr ok_response)"
  let ?s = "test_state ErrorLevel"
  let ?q = "Header_Set ''Authorization'' ''Bearer tok'' (built_request ?w ''example'' ?s)"
  have h1: "ApiRequest ?q \<in> set (new_wire ?s (snd (generateAuthKey ?w test_client ''example'' ?s)))"
    by (simp add: test_run_new_wire [OF example_url])
  have h2: "Second \<le> remaining ?w ?s"
    by (simp add: test_remaining Second_def)
  from C4_expirySeconds_of_second_reading [OF h1] h1 h2 show ?thesis
    by simp
qed

text \<open>
  C6, as stated, fails: two runs whose first clock reading is the same and whose second
  reading differs by five seconds send different values of \<open>expirySeconds\<close> (1209600 and
  1209595), and the clock has been read twice.
\<close>

theorem C6_counterexample:
  "mono_clock (test_world 0 (Inr ok_response)) 0 = mono_clock (test_world (5 * Second) (Inr ok_response)) 0
   \<and> map Body (api_requests (new_wire (test_state ErrorLevel)
       (snd (generateAuthKey (test_world 0 (Inr ok_response)) test_client ''example''
              (test_state ErrorLevel))))) = [encode (AuthKeyRequest 1209600)]
   \<and> map Body (api_requests (new_wire (test_state ErrorLevel)
       (snd (generateAuthKey (test_world (5 * Second) (Inr ok_response)) test_client ''example''
              (test_state ErrorLevel))))) = [encode (AuthKeyRequest 1209595)]
   \<and> encode (AuthKeyRequest 1209600) \<noteq> encode (AuthKeyRequest 1209595)
   \<and> ticks (snd (generateAuthKey (test_world (5 * Second) (Inr ok_response)) test_client ''example''
              (test_state ErrorLevel))) = 2"
proof -
  have "encode (AuthKeyRequest 1209600) \<noteq> encode (AuthKeyRequest 1209595)"
    using encode_AuthKeyRequest_inj [of 1209600 1209595] by auto
  moreover have "seconds_int (1209600 * Second - 5 * Second) = 1209595"
    by (simp add: seconds_int_def Second_def)
  moreover have "seconds_int (1209600 * Second) = 1209600"
    by (simp add: seconds_int_def Second_def)
  ultimately show ?thesis
    by (simp add: test_run_bodies [OF example_url] generateAuthKey_ticks) (simp add: test_world_def test_state_def)
qed

text \<open>
  C6, amended. Every invocation of \<open>generateAuthKey\<close> reads the clock exactly twice. The
  expiry instant is the first reading plus 14 days, and \<open>expirySeconds\<close> in a request body
  that is sent is the whole seconds from the second reading to that instant. It is the
  1209600 seconds of a single snapshot exactly when the second reading is not later than the
  first and less than a second earlier; for a clock that does not run backwards, exactly when
  the two readings coincide.
\<close>

theorem C6_two_clock_readings:
  "ticks (snd (generateAuthKey w client tailnet s)) = ticks s + 2
   \<and> (ApiRequest q \<in> set (new_wire s (snd (generateAuthKey w client tailnet s))) \<longrightarrow>
        Body q = encode (AuthKeyRequest (seconds_int
            (mono_clock w (ticks s) + authKeyExpiryDays * 24 * Hour - mono_clock w (Suc (ticks s)))))
        \<and> (Body q = encode (AuthKeyRequest 1209600) \<longleftrightarrow>
             mono_clock w (ticks s) - Second < mono_clock w (Suc (ticks s))
             \<and> mono_clock w (Suc (ticks s)) \<le> mono_clock w (ticks s))
        \<and> (mono_clock w (ticks s) \<le> mono_clock w (Suc (ticks s)) \<longrightarrow>
             (Body q = encode (AuthKeyRequest 1209600) \<longleftrightarrow>
                mono_clock w (Suc (ticks s)) = mono_clock w (ticks s))))"
proof -
  let ?a = "mono_clock w (ticks s)"
  let ?b = "mono_clock w (Suc (ticks s))"
  have t: "ticks (snd (generateAuthKey w client tailnet s)) = ticks s + 2"
    by (simp add: generateAuthKey_ticks)
  have r: "remaining w s = ?a + authKeyExpiryDays * 24 * Hour - ?b"
    by (simp add: remaining_def)
  have whole: "seconds_int (remaining w s) = 1209600 \<longleftrightarrow> ?a - Second < ?b \<and> ?b \<le> ?a"
    by (simp add: seconds_int_eq r authKeyExpiryDays_def Hour_def Second_def) arith
  have sent: "ApiRequest q \<in> set (new_wire s (snd (generateAuthKey w client tailnet s))) \<longrightarrow>
        Body q = encode (AuthKeyRequest (seconds_int (?a + authKeyExpiryDays * 24 * Hour - ?b)))
        \<and> (Body q = encode (AuthKeyRequest 1209600) \<longleftrightarrow> ?a - Second < ?b \<and> ?b \<le> ?a)
        \<and> (?a \<le> ?b \<longrightarrow> (Body q = encode (AuthKeyRequest 1209600) \<longleftrightarrow> ?b = ?a))"
  proof
    assume h: "ApiRequest q \<in> set (new_wire s (snd (generateAuthKey w client tailnet s)))"
    have b: "Body q = encode (AuthKeyRequest (seconds_int (remaining w s)))"
      by (rule sent_Body [OF h])
    have e: "Body q = encode (AuthKeyRequest 1209600) \<longleftrightarrow> seconds_int (remaining w s) = 1209600"
      using encode_AuthKeyRequest_inj [of "seconds_int (remaining w s)" 1209600] b by auto
    have s: "0 < Second"
      by (simp add: Second_def)
    show "Body q = encode (AuthKeyRequest (seconds_int (?a + authKeyExpiryDays * 24 * Hour - ?b)))
        \<and> (Body q = encode (AuthKeyRequest 1209600) \<longleftrightarrow> ?a - Second < ?b \<and> ?b \<le> ?a)
        \<and> (?a \<le> ?b \<longrightarrow> (Body q = encode (AuthKeyRequest 1209600) \<longleftrightarrow> ?b = ?a))"
      using b e whole s unfolding r by auto
  qed
  from t sent show ?thesis
    by blast
qed

theorem C6_witness:
  "ApiRequest (Header_Set ''Authorization'' ''Bearer tok''
       (built_request (test_world 0 (Inr ok_response)) ''example'' (test_state ErrorLevel)))
     \<in> set (new_wire (test_state ErrorLevel)
          (snd (generateAuthKey (test_world 0 (Inr ok_response)) test_client ''example'' (test_state ErrorLevel))))
   \<and> mono_clock (test_world 0 (Inr ok_response)) (ticks (test_state ErrorLevel)) \<le>
       mono_clock (test_world 0 (Inr ok_response)) (Suc (ticks (test_state ErrorLevel)))
   \<and> mono_clock (test_world 0 (Inr ok_response)) (Suc (ticks (test_state ErrorLevel))) =
       mono_clock (test_world 0 (Inr ok_response)) (ticks (test_state ErrorLevel))
   \<and> ticks (snd (generateAuthKey (test_world 0 (Inr ok_response)) test_client ''example'' (test_state ErrorLevel))) =
       ticks (test_state ErrorLevel) + 2
   \<and> Body (Header_Set ''Authorization'' ''Bearer tok''
       (built_request (test_world 0 (Inr ok_response)) ''example'' (test_state ErrorLevel))) =
       encode (AuthKeyRequest 1209600)"
proof -
  let ?w = "test_world 0 (Inr ok_response)"
  let ?s = "test_state ErrorLevel"
  let ?q = "Header_Set ''Authorization'' ''Bearer tok'' (built_request ?w ''example'' ?s)"
  have h1: "ApiRequest ?q \<in> set (new_wire ?s (snd (generateAuthKey ?w test_client ''example'' ?s)))"
    by (simp add: test_run_new_wire [OF example_url])
  have h2: "mono_clock ?w (ticks ?s) \<le> mono_clock ?w (Suc (ticks ?s))"
    by (simp add: test_world_def)
  have h3: "mono_clock ?w (Suc (ticks ?s)) = mono_clock ?w (ticks ?s)"
    by (simp add: test_world_def)
  from C6_two_clock_readings [of ?w test_client "''example''" ?s ?q] h1 h2 h3 show ?thesis
    by (simp add: seconds_int_def authKeyExpiryDays_def Hour_def Second_def)
qed

text \<open>
  C7, as stated, fails: called with the empty tailnet, \<open>generateAuthKey\<close> does not fail
  fast; it sends a POST to \<open>https://api.tailscale.com/api/v2/tailnet//keys\<close> and, when the
  API answers with a key, returns it.
\<close>

theorem C7_counterexample:
  "map (\<lambda>q. (Method q, URL q))
     (api_requests (new_wire (test_state ErrorLevel)
        (snd (generateAuthKey (test_world 1 (Inr ok_response)) test_client [] (test_state ErrorLevel))))) =
     [(''POST'', ''https://api.tailscale.com/api/v2/tailnet//keys'')]
   \<and> fst (generateAuthKey (test_world 1 (Inr ok_response)) test_client [] (test_state ErrorLevel)) =
       Inr scenario_key"
proof -
  note u = empty_url [of "test_world 1 (Inr ok_response)"]
  have "map (\<lambda>q. (Method q, URL q))
     (api_requests (new_wire (test_state ErrorLevel)
        (snd (generateAuthKey (test_world 1 (Inr ok_response)) test_client [] (test_state ErrorLevel))))) =
     [(''POST'', ''https://api.tailscale.com/api/v2/tailnet//keys'')]"
    by (simp add: test_run_new_wire [OF u])
       (simp add: Header_Set_def built_request_def request_url_plain [OF plain_empty] endpoint_of_def
          tailscaleAPIBase_def)
  moreover have "fst (generateAuthKey (test_world 1 (Inr ok_response)) test_client [] (test_state ErrorLevel)) =
       Inr scenario_key"
    by (simp add: test_run [OF u] finish_fst result_of_def) (simp add: ok_response_def scenario_decodes)
  ultimately show ?thesis
    by simp
qed

text \<open>
  C7, amended. The empty tailnet is rejected by the caller, not by \<open>generateAuthKey\<close>: when
  \<open>TS_TAILNET\<close> is empty after the environment has been loaded, \<open>main\<close> logs
  \<open>TS_TAILNET environment variable is required\<close> at level Fatal and exits with status 1,
  having constructed no client and issued no network request. \<open>generateAuthKey\<close> itself
  does not check its argument: with the empty tailnet and a cached token, it sends the POST
  to \<open>{apiBase}/tailnet//keys\<close>.
\<close>

theorem C7_empty_tailnet_checked_by_main:
  "(Getenv ''TS_TAILNET'' (snd (loadEnvConfig w (setupLogging (LogLevel cfg) s))) = [] \<longrightarrow>
      fst (main_provision w cfg s) = Exit 1
      \<and> wire (snd (main_provision w cfg s)) = wire s
      \<and> token (snd (main_provision w cfg s)) = token s
      \<and> last (logs (snd (main_provision w cfg s))) =
          Logrus FatalLevel ''TS_TAILNET environment variable is required'' [])
   \<and> (token s' = Some tok \<longrightarrow>
        map (\<lambda>q. (Method q, URL q))
          (api_requests (new_wire s' (snd (generateAuthKey w client [] s')))) =
        [(''POST'', tailscaleAPIBase @ ''/tailnet//keys'')])"
proof -
  let ?s1 = "setupLogging (LogLevel cfg) s"
  let ?s2 = "snd (loadEnvConfig w ?s1)"
  let ?s3 = "case fst (loadEnvConfig w ?s1) of Some e \<Rightarrow> Debug [] e ?s2 | None \<Rightarrow> ?s2"
  have keep: "wire ?s3 = wire s" "token ?s3 = token s" "level_num FatalLevel \<le> level_num (logLevel ?s3)"
    using setupLogging_keeps [of "LogLevel cfg" s] loadEnvConfig_keeps [of w ?s1]
    by (simp_all split: option.splits)
  have a: "Getenv ''TS_TAILNET'' ?s2 = [] \<longrightarrow>
      fst (main_provision w cfg s) = Exit 1
      \<and> wire (snd (main_provision w cfg s)) = wire s
      \<and> token (snd (main_provision w cfg s)) = token s
      \<and> last (logs (snd (main_provision w cfg s))) =
          Logrus FatalLevel ''TS_TAILNET environment variable is required'' []"
    using keep by (simp add: main_provision_empty_tailnet Fatal_def logrus_log_def)
  have b: "token s' = Some tok \<longrightarrow>
        map (\<lambda>q. (Method q, URL q))
          (api_requests (new_wire s' (snd (generateAuthKey w client [] s')))) =
        [(''POST'', tailscaleAPIBase @ ''/tailnet//keys'')]"
  proof
    assume h: "token s' = Some tok"
    note u = empty_url [of w]
    from h have t: "token (before_send w [] s') = Some tok"
      by (simp add: before_send_token)
    show "map (\<lambda>q. (Method q, URL q))
          (api_requests (new_wire s' (snd (generateAuthKey w client [] s')))) =
        [(''POST'', tailscaleAPIBase @ ''/tailnet//keys'')]"
      by (simp add: generateAuthKey_unfold u client_Do_cached [OF t] new_wire_finish)
         (simp add: new_wire_def before_send_wire Header_Set_def built_request_def
            request_url_plain [OF plain_empty] endpoint_of_def)
  qed
  from a b show ?thesis
    by blast
qed

theorem C7_witness:
  "Getenv ''TS_TAILNET''
     (snd (loadEnvConfig (test_world 1 (Inr ok_response)) (setupLogging (LogLevel test_config) bare_state))) = []
   \<and> token cached_state = Some ''tok''
   \<and> main_provision (test_world 1 (Inr ok_response)) test_config bare_state =
       (Exit 1, bare_state\<lparr>logs := [Logrus FatalLevel ''TS_TAILNET environment variable is required'' []]\<rparr>)
   \<and> map (\<lambda>q. (Method q, URL q))
        (api_requests (new_wire cached_state
           (snd (generateAuthKey (test_world 1 (Inr ok_response)) test_client [] cached_state)))) =
       [(''POST'', ''https://api.tailscale.com/api/v2/tailnet//keys'')]"
proof -
  let ?w = "test_world 1 (Inr ok_response)"
  have lo: "ToLower ''error'' = ''error''"
    by code_simp
  have s1: "setupLogging (LogLevel test_config) bare_state = bare_state"
    by (simp add: setupLogging_def test_config_def lo bare_state_def)
  have s2: "loadEnvConfig ?w bare_state =
      (Some ''no .env file found in executable directory or current directory'', bare_state)"
    by (simp add: loadEnvConfig_def godotenv_Load_def test_world_def)
  have h1: "Getenv ''TS_TAILNET'' (snd (loadEnvConfig ?w (setupLogging (LogLevel test_config) bare_state))) = []"
    unfolding s1 s2 by (simp add: Getenv_def bare_state_def)
  have h3: "token cached_state = Some ''tok''"
    by (simp add: cached_state_def)
  have m: "main_provision ?w test_config bare_state =
       (Exit 1, bare_state\<lparr>logs := [Logrus FatalLevel ''TS_TAILNET environment variable is required'' []]\<rparr>)"
    unfolding main_provision_empty_tailnet [OF h1] s1 s2
    by (simp add: Fatal_def logrus_log_def Debug_def bare_state_def)
  from C7_empty_tailnet_checked_by_main
         [where w = ?w and cfg = test_config and s = bare_state and tok = "''tok''"
            and s' = cached_state and client = test_client] h1 h3 m
  show ?thesis
    by (simp add: tailscaleAPIBase_def)
qed

text \<open>
  C8. For every environment, also one where the client id or the client secret is empty,
  \<open>GetAccessToken\<close> returns a client and the error \<open>nil\<close>, puts nothing on the wire and
  leaves the token cache as it was: no token is acquired. The client holds the credentials
  of the environment as they are. When no token is cached and the token endpoint fails for
  these credentials, the failure is what the first request made through the client returns,
  after the token exchange has been attempted.
\<close>

theorem C8_client_construction_is_lazy:
  assumes "GetAccessToken w s = ((client, err), s')"
  shows "err = None
       \<and> wire s' = wire s \<and> token s' = token s
       \<and> ClientID client = Getenv ''TS_CLIENT_ID'' s'
       \<and> ClientSecret client = Getenv ''TS_CLIENT_SECRET'' s'
       \<and> (token s' = None \<and> token_endpoint w (ClientID client) (ClientSecret client) = Inl e \<longrightarrow>
            client_Do w client req s' =
              (Inl e, s'\<lparr>wire := wire s' @
                 [TokenRequest ''https://api.tailscale.com/api/v2/oauth/token''
                    (ClientID client) (ClientSecret client)]\<rparr>))"
proof -
  obtain e1 s1 where l: "godotenv_Load (dotenv w) s = (e1, s1)"
    by (cases "godotenv_Load (dotenv w) s")
  from godotenv_Load_keeps [OF l] have k: "wire s1 = wire s" "token s1 = token s"
    by simp_all
  from assms l have r: "err = None" "s' = (if e1 \<noteq> None
        then Println ''No .env file found, using system environment variables.'' s1 else s1)"
      "client = \<lparr>ClientID = Getenv ''TS_CLIENT_ID'' s', ClientSecret = Getenv ''TS_CLIENT_SECRET'' s',
                  TokenURL = ''https://api.tailscale.com/api/v2/oauth/token''\<rparr>"
    by (auto simp: GetAccessToken_def Let_def Config_Client_def)
  from r(2) k have "wire s' = wire s" "token s' = token s"
    by (simp_all add: Println_def)
  moreover have "ClientID client = Getenv ''TS_CLIENT_ID'' s'" "ClientSecret client = Getenv ''TS_CLIENT_SECRET'' s'"
      "TokenURL client = ''https://api.tailscale.com/api/v2/oauth/token''"
    by (simp_all add: r(3))
  ultimately show ?thesis
    using r(1) by (simp add: client_Do_def Let_def)
qed

theorem C8_witness:
  "GetAccessToken (test_world 1 (Inr ok_response)) bare_state =
     ((\<lparr>ClientID = [], ClientSecret = [], TokenURL = ''https://api.tailscale.com/api/v2/oauth/token''\<rparr>, None),
      bare_state\<lparr>logs := [StdLog ''No .env file found, using system environment variables.'']\<rparr>)
   \<and> token (bare_state\<lparr>logs := [StdLog ''No .env file found, using system environment variables.'']\<rparr>) = None
   \<and> token_endpoint (test_world 1 (Inr ok_response)) [] [] = Inl ''oauth2: cannot fetch token''
   \<and> fst (client_Do (test_world 1 (Inr ok_response))
        \<lparr>ClientID = [], ClientSecret = [], TokenURL = ''https://api.tailscale.com/api/v2/oauth/token''\<rparr>
        \<lparr>Method = ''GET'', URL = ''https://api.tailscale.com/api/v2/tailnet/example/devices'',
          Header = [], Body = []\<rparr>
        (bare_state\<lparr>logs := [StdLog ''No .env file found, using system environment variables.'']\<rparr>)) =
       Inl ''oauth2: cannot fetch token''"
proof -
  let ?w = "test_world 1 (Inr ok_response)"
  let ?c = "\<lparr>ClientID = [], ClientSecret = [], TokenURL = ''https://api.tailscale.com/api/v2/oauth/token''\<rparr>"
  let ?s' = "bare_state\<lparr>logs := [StdLog ''No .env file found, using system environment variables.'']\<rparr>"
  have g: "GetAccessToken ?w bare_state = ((?c, None), ?s')"
    by (simp add: GetAccessToken_def godotenv_Load_def Println_def Getenv_def Config_Client_def
        test_world_def bare_state_def)
  have t: "token ?s' = None"
    by (simp add: bare_state_def)
  have e: "token_endpoint ?w [] [] = Inl ''oauth2: cannot fetch token''"
    by (simp add: test_world_def)
  from C8_client_construction_is_lazy [OF g, where e = "''oauth2: cannot fetch token''"
      and req = "\<lparr>Method = ''GET'', URL = ''https://api.tailscale.com/api/v2/tailnet/example/devices'',
          Header = [], Body = []\<rparr>"] g t e
  show ?thesis
    by simp
qed

text \<open>
  C9. At every logrus level below Debug, \<open>generateAuthKey\<close> adds no line to the log at all,
  so none that contains the client secret or the issued key; at every level, each line it
  adds is a logrus entry of level Debug. \<open>GetAccessToken\<close> adds at most one line, a fixed
  text that is built from no variable: its log output is the same for every client secret
  and every issued key.
\<close>

theorem C9_no_secret_logged_below_debug:
  "(level_num (logLevel s) < level_num DebugLevel \<longrightarrow>
      logs (snd (generateAuthKey w client tailnet s)) = logs s)
   \<and> list_all is_debug_entry (new_logs s (snd (generateAuthKey w client tailnet s)))
   \<and> logs (snd (GetAccessToken w s)) =
       logs s @ (case dotenv w of
                   Inl e \<Rightarrow> [StdLog ''No .env file found, using system environment variables.'']
                 | Inr kvs \<Rightarrow> [])"
proof -
  obtain ls where "logs (snd (generateAuthKey w client tailnet s)) = logs s @ ls"
      "list_all is_debug_entry ls"
      "level_num (logLevel s) < level_num DebugLevel \<longrightarrow> ls = []"
    using generateAuthKey_logs by blast
  then show ?thesis
    by (auto simp: GetAccessToken_logs new_logs_def)
qed

theorem C9_witness:
  "level_num (logLevel (setupLogging ''Info'' (test_state DebugLevel))) < level_num DebugLevel
   \<and> logs (snd (generateAuthKey (test_world 1 (Inr ok_response)) test_client ''example''
                  (setupLogging ''Info'' (test_state DebugLevel)))) = []
   \<and> logs (snd (GetAccessToken (test_world 1 (Inr ok_response))
                  (setupLogging ''Info'' (test_state DebugLevel)))) =
       [StdLog ''No .env file found, using system environment variables.'']"
proof -
  let ?s = "setupLogging ''Info'' (test_state DebugLevel)"
  have lo: "ToLower ''Info'' = ''info''"
    by code_simp
  have s: "?s = test_state InfoLevel"
    by (simp add: setupLogging_def lo test_state_def)
  have h: "level_num (logLevel ?s) < level_num DebugLevel"
    unfolding s by (simp add: test_state_def)
  from C9_no_secret_logged_below_debug [of ?s "test_world 1 (Inr ok_response)" test_client "''example''"] h
  show ?thesis
    unfolding s by (simp add: test_state_def test_world_def)
qed

end
